theory Spec2Isabelle
  imports Complex_Main
begin

section \<open>The host: numbers, strings, errors\<close>

text \<open>
  The tile projection is written in JavaScript's double arithmetic
  (\<^verbatim>\<open>Math.log\<close>, \<^verbatim>\<open>Math.tan\<close>, \<^verbatim>\<open>Math.cos\<close>, \<^verbatim>\<open>Math.pow\<close>, \<^verbatim>\<open>Math.floor\<close>).
  That arithmetic is a parameter of the embedding: a value of type \<open>('n, 'i) Math\<close>
  supplies the operations over a number type \<open>'n\<close>, with \<open>Math_floor\<close> yielding a value
  of a type \<open>'i\<close>, and every theorem below holds for every such value. The projection
  itself is embedded for every \<open>'i\<close>. The loops over tiles are embedded for
  \<open>'i = jsnum\<close>, the values \<^verbatim>\<open>Math.floor\<close> can return: a double that is a whole number,
  an infinity, or \<^verbatim>\<open>NaN\<close>. On these the operators of the loops are written out below as
  the doubles compute them. The zoom arguments range over the whole numbers.
\<close>

record ('n, 'i) Math =
  Math_PI :: 'n
  Math_floor :: "'n \<Rightarrow> 'i"
  Math_log :: "'n \<Rightarrow> 'n"
  Math_tan :: "'n \<Rightarrow> 'n"
  Math_cos :: "'n \<Rightarrow> 'n"
  Math_pow :: "'n \<Rightarrow> 'n \<Rightarrow> 'n"
  num_add :: "'n \<Rightarrow> 'n \<Rightarrow> 'n"
  num_sub :: "'n \<Rightarrow> 'n \<Rightarrow> 'n"
  num_mul :: "'n \<Rightarrow> 'n \<Rightarrow> 'n"
  num_div :: "'n \<Rightarrow> 'n \<Rightarrow> 'n"
  num_lit :: "int \<Rightarrow> 'n"

text \<open>
  \<open>Fin n\<close> is the double whose value is the whole number \<open>n\<close>. The doubles hold every
  whole number of a magnitude up to \<open>2^53\<close>, and above that only those that \<open>roundWhole\<close>
  below leaves as they are. \<open>-0\<close> is not told from \<open>0\<close>, which no operator below and no
  printed string tells apart.
\<close>

datatype jsnum = Fin int | PosInf | NegInf | NaN

text \<open>
  Rounding a whole number to the nearest double, ties to the even significand. A double
  has 53 significant bits: \<open>ulp a\<close> is the distance between neighbouring doubles at the
  magnitude \<open>a\<close>, that is 1 below \<open>2^53\<close> and doubling with every further bit.
\<close>

function ulp :: "nat \<Rightarrow> nat" where
  "ulp a = (if a < 2 ^ 53 then 1 else 2 * ulp (a div 2))"
  by pat_completeness auto
termination
  by (relation "measure id") auto

definition roundWhole :: "int \<Rightarrow> int" where
  "roundWhole m =
     (let a = nat \<bar>m\<bar>;
          u = ulp a;
          q = a div u;
          r = a mod u;
          k = (if 2 * r < u then q else if u < 2 * r then q + 1 else if even q then q else q + 1)
      in sgn m * int (k * u))"

text \<open>The same with the overflow of the doubles: from \<open>2^1024\<close> on the result is infinite.\<close>

definition roundDouble :: "int \<Rightarrow> jsnum" where
  "roundDouble m =
     (let w = roundWhole m
      in if 2 ^ 1024 \<le> \<bar>w\<bar> then (if m < 0 then NegInf else PosInf) else Fin w)"

text \<open>\<^verbatim>\<open>a + b\<close>, \<^verbatim>\<open>a - b\<close>, \<^verbatim>\<open>a * b\<close>, \<^verbatim>\<open>Math.abs(a)\<close> and \<^verbatim>\<open>x++\<close> on these values.\<close>

fun js_add :: "jsnum \<Rightarrow> jsnum \<Rightarrow> jsnum" where
  "js_add (Fin a) (Fin b) = roundDouble (a + b)"
| "js_add NaN b = NaN"
| "js_add a NaN = NaN"
| "js_add PosInf NegInf = NaN"
| "js_add NegInf PosInf = NaN"
| "js_add PosInf b = PosInf"
| "js_add a PosInf = PosInf"
| "js_add NegInf b = NegInf"
| "js_add a NegInf = NegInf"

fun js_sub :: "jsnum \<Rightarrow> jsnum \<Rightarrow> jsnum" where
  "js_sub (Fin a) (Fin b) = roundDouble (a - b)"
| "js_sub NaN b = NaN"
| "js_sub a NaN = NaN"
| "js_sub PosInf PosInf = NaN"
| "js_sub NegInf NegInf = NaN"
| "js_sub PosInf b = PosInf"
| "js_sub a NegInf = PosInf"
| "js_sub NegInf b = NegInf"
| "js_sub a PosInf = NegInf"

fun js_mul :: "jsnum \<Rightarrow> jsnum \<Rightarrow> jsnum" where
  "js_mul (Fin a) (Fin b) = roundDouble (a * b)"
| "js_mul NaN b = NaN"
| "js_mul a NaN = NaN"
| "js_mul (Fin a) b = (if a = 0 then NaN else if (0 < a) = (b = PosInf) then PosInf else NegInf)"
| "js_mul a (Fin b) = (if b = 0 then NaN else if (0 < b) = (a = PosInf) then PosInf else NegInf)"
| "js_mul a b = (if a = b then PosInf else NegInf)"

fun Math_abs :: "jsnum \<Rightarrow> jsnum" where
  "Math_abs (Fin a) = Fin \<bar>a\<bar>"
| "Math_abs NaN = NaN"
| "Math_abs a = PosInf"

definition js_inc :: "jsnum \<Rightarrow> jsnum" where
  "js_inc x = js_add x (Fin 1)"

text \<open>\<^verbatim>\<open>a <= b\<close>: false when either side is \<^verbatim>\<open>NaN\<close>.\<close>

fun js_le :: "jsnum \<Rightarrow> jsnum \<Rightarrow> bool" where
  "js_le NaN b = False"
| "js_le a NaN = False"
| "js_le NegInf b = True"
| "js_le a PosInf = True"
| "js_le (Fin a) (Fin b) = (a \<le> b)"
| "js_le PosInf b = False"
| "js_le a NegInf = False"

text \<open>\<^verbatim>\<open>Math.min(a, b)\<close> and \<^verbatim>\<open>Math.max(a, b)\<close>: \<^verbatim>\<open>NaN\<close> when either argument is.\<close>

fun Math_min :: "jsnum \<Rightarrow> jsnum \<Rightarrow> jsnum" where
  "Math_min NaN b = NaN"
| "Math_min a NaN = NaN"
| "Math_min a b = (if js_le a b then a else b)"

fun Math_max :: "jsnum \<Rightarrow> jsnum \<Rightarrow> jsnum" where
  "Math_max NaN b = NaN"
| "Math_max a NaN = NaN"
| "Math_max a b = (if js_le a b then b else a)"

text \<open>
  The real numbers as an instance, used for the concrete examples. At latitude 0 and
  longitude 0 and at the zooms of the examples every operation of the projection is exact
  in the doubles, so the host computes the same tiles there.
\<close>

definition Math_real :: "(real, jsnum) Math" where
  "Math_real = \<lparr>Math_PI = pi, Math_floor = (\<lambda>v. Fin (floor v)), Math_log = ln, Math_tan = tan,
     Math_cos = cos, Math_pow = (powr), num_add = (+), num_sub = (-), num_mul = (*),
     num_div = (/), num_lit = of_int\<rparr>"

text \<open>
  The errors of the specification's taxonomy, and the two the host raises. A JavaScript
  call returns a value or throws; the projection, the URL enumeration, the count and
  \<^verbatim>\<open>downloadArea\<close> are embedded with the result type \<open>error + 'a\<close>, so that the two
  outcomes can be told apart. \<open>TypeError\<close> is what a rejected \<^verbatim>\<open>fetch\<close> or
  \<^verbatim>\<open>cache.put\<close> throws, \<open>RangeError\<close> what \<^verbatim>\<open>push\<close> throws on an array that is full;
  the source throws nothing itself.
\<close>

datatype error = InvalidCoordinate | DownloadAlreadyInProgress | TypeError | RangeError

text \<open>
  The decimal numeral of a whole number \<open>n\<close>, its digits with a leading minus sign:
  \<^verbatim>\<open>String(n)\<close> for every \<open>n\<close> of a magnitude below \<open>2^53\<close>.
\<close>

fun digits :: "nat \<Rightarrow> string" where
  "digits n = (if n < 10 then [''0123456789'' ! n]
               else digits (n div 10) @ [''0123456789'' ! (n mod 10)])"

definition ToString :: "int \<Rightarrow> string" where
  "ToString n = (if n < 0 then CHR ''-'' # digits (nat (- n)) else digits (nat n))"

text \<open>
  \<^verbatim>\<open>String(v)\<close> for the values of \<open>jsnum\<close> (ECMAScript, Number::toString). A whole
  number below \<open>2^53\<close> is printed by its digits. A larger double is printed by the shortest
  decimal that rounds to it: the integers \<open>n\<close>, \<open>k\<close>, \<open>s\<close> with \<open>10^(k-1) \<le> s < 10^k\<close> and
  \<open>k\<close> as small as possible such that \<open>s * 10^(n-k)\<close> rounds to the number, the \<open>s\<close> closest
  to it where there are two, the even one where both are as close. Seventeen digits always
  suffice, so \<open>k \<le> n\<close>. The digits of \<open>s\<close> are followed by \<open>n - k\<close> zeros when \<open>n \<le> 21\<close>, and
  written in exponent notation otherwise. \<open>decimalsAt a k\<close> lists the pairs \<open>(n, s)\<close> of that
  kind for one \<open>k\<close>: \<open>n\<close> is the number of digits of \<open>a\<close> or one off, and \<open>s\<close> is one of the
  two neighbours of \<open>a / 10^(n-k)\<close>, between which everything that rounds to \<open>a\<close> lies.
\<close>

definition decimalsAt :: "nat \<Rightarrow> nat \<Rightarrow> (nat \<times> nat) list" where
  "decimalsAt a k =
     (let d = length (digits a)
      in [(n, s). n \<leftarrow> [d - 1, d, d + 1], s \<leftarrow> [a div 10 ^ (n - k), a div 10 ^ (n - k) + 1],
            k \<le> n \<and> 10 ^ (k - 1) \<le> s \<and> s < 10 ^ k
            \<and> roundDouble (int (s * 10 ^ (n - k))) = Fin (int a)])"

definition nearer :: "nat \<Rightarrow> nat \<Rightarrow> nat \<times> nat \<Rightarrow> nat \<times> nat \<Rightarrow> nat \<times> nat" where
  "nearer a k c c' =
     (let e = \<bar>int (snd c * 10 ^ (fst c - k)) - int a\<bar>;
          e' = \<bar>int (snd c' * 10 ^ (fst c' - k)) - int a\<bar>
      in if e' < e \<or> (e' = e \<and> even (snd c')) then c' else c)"

definition shortestDecimal :: "nat \<Rightarrow> (nat \<times> nat \<times> nat) option" where
  "shortestDecimal a =
     (case filter (\<lambda>k. decimalsAt a k \<noteq> []) [1..<18] of
        [] \<Rightarrow> None
      | k # ks \<Rightarrow>
          (case decimalsAt a k of
             [] \<Rightarrow> None
           | c # cs \<Rightarrow> (case fold (\<lambda>c' c. nearer a k c c') cs c of (n, s) \<Rightarrow> Some (n, k, s))))"

text \<open>
  A value \<open>Fin a\<close> that is no double does not occur in the host; no decimal rounds to it,
  and its digits are printed.
\<close>

definition wholeToString :: "nat \<Rightarrow> string" where
  "wholeToString a =
     (if a < 2 ^ 53 then digits a
      else case shortestDecimal a of
        None \<Rightarrow> digits a
      | Some (n, k, s) \<Rightarrow>
          (if n \<le> 21 then digits s @ replicate (n - k) (CHR ''0'')
           else (case digits s of
                   [] \<Rightarrow> []
                 | c # cs \<Rightarrow>
                     c # (if cs = [] then [] else CHR ''.'' # cs) @ ''e+'' @ digits (n - 1))))"

definition NumberToString :: "jsnum \<Rightarrow> string" where
  "NumberToString v =
     (case v of
        Fin n \<Rightarrow> (if n < 0 then CHR ''-'' # wholeToString (nat (- n)) else wholeToString (nat n))
      | PosInf \<Rightarrow> ''Infinity''
      | NegInf \<Rightarrow> ''-Infinity''
      | NaN \<Rightarrow> ''NaN'')"

text \<open>
  \<^verbatim>\<open>s.replace(pat, r)\<close> with a string pattern: the first occurrence of \<open>pat\<close> in \<open>s\<close> is
  replaced, and \<open>s\<close> is returned unchanged when there is none. The replacement strings of
  the source are printed numbers, which hold no \<^verbatim>\<open>$\<close> pattern.
\<close>

fun String_replace :: "string \<Rightarrow> string \<Rightarrow> string \<Rightarrow> string" where
  "String_replace [] pat r = (if pat = [] then r else [])"
| "String_replace (c # cs) pat r =
     (if take (length pat) (c # cs) = pat then r @ drop (length pat) (c # cs)
      else c # String_replace cs pat r)"

section \<open>Tile coordinates (TileCache in app.js)\<close>

record 'i tile =
  tileX :: 'i
  tileY :: 'i

record 'n bounds =
  north :: 'n
  south :: 'n
  east :: 'n
  west :: 'n

text \<open>
  \<^verbatim>\<open>const x = Math.floor((lng + 180) / 360 * Math.pow(2, zoom));\<close>
\<close>

definition lngToTileX :: "('n, 'i) Math \<Rightarrow> 'n \<Rightarrow> int \<Rightarrow> 'i" where
  "lngToTileX M lng zoom =
     Math_floor M
       (num_mul M (num_div M (num_add M lng (num_lit M 180)) (num_lit M 360))
          (Math_pow M (num_lit M 2) (num_lit M zoom)))"

text \<open>
  \<^verbatim>\<open>const y = Math.floor((1 - Math.log(Math.tan(lat * Math.PI / 180) +
      1 / Math.cos(lat * Math.PI / 180)) / Math.PI) / 2 * Math.pow(2, zoom));\<close>
\<close>

definition latToTileY :: "('n, 'i) Math \<Rightarrow> 'n \<Rightarrow> int \<Rightarrow> 'i" where
  "latToTileY M lat zoom =
     Math_floor M
       (num_mul M
          (num_div M
             (num_sub M (num_lit M 1)
                (num_div M
                   (Math_log M
                      (num_add M
                         (Math_tan M (num_div M (num_mul M lat (Math_PI M)) (num_lit M 180)))
                         (num_div M (num_lit M 1)
                            (Math_cos M (num_div M (num_mul M lat (Math_PI M)) (num_lit M 180))))))
                   (Math_PI M)))
             (num_lit M 2))
          (Math_pow M (num_lit M 2) (num_lit M zoom)))"

text \<open>
  \<^verbatim>\<open>latLngToTile(lat, lng, zoom)\<close>: the two constants, then \<^verbatim>\<open>return { x, y }\<close>. The body
  has no test of its arguments and no \<^verbatim>\<open>throw\<close>.
\<close>

definition latLngToTile :: "('n, 'i) Math \<Rightarrow> 'n \<Rightarrow> 'n \<Rightarrow> int \<Rightarrow> error + 'i tile" where
  "latLngToTile M lat lng zoom =
     (let x = lngToTileX M lng zoom;
          y = latToTileY M lat zoom
      in Inr \<lparr>tileX = x, tileY = y\<rparr>)"

definition baseUrl :: string where
  "baseUrl =
     ''https://server.arcgisonline.com/ArcGIS/rest/services/World_Imagery/MapServer/tile/{z}/{y}/{x}''"

text \<open>
  The URL built in the innermost loop,
  \<^verbatim>\<open>baseUrl.replace('{z}', z).replace('{x}', x).replace('{y}', y)\<close>, for three whole
  numbers printed by their numerals.
\<close>

definition tileUrl :: "int \<Rightarrow> int \<Rightarrow> int \<Rightarrow> string" where
  "tileUrl z x y =
     String_replace
       (String_replace (String_replace baseUrl ''{z}'' (ToString z)) ''{x}'' (ToString x))
       ''{y}'' (ToString y)"

text \<open>
  The same chain for loop variables of every value, printed as the host prints them: the
  URL that the loops below push.
\<close>

definition tileUrlOf :: "jsnum \<Rightarrow> jsnum \<Rightarrow> jsnum \<Rightarrow> string" where
  "tileUrlOf z x y =
     String_replace
       (String_replace (String_replace baseUrl ''{z}'' (NumberToString z)) ''{x}''
          (NumberToString x))
       ''{y}'' (NumberToString y)"

text \<open>
  The loops of \<^verbatim>\<open>generateTileUrls\<close>, innermost first; \<open>urls\<close> is the array the source
  pushes onto. A loop whose variable does not grow (\<^verbatim>\<open>y++\<close> leaves a double from
  \<open>2^54\<close> on, and an infinity, as it is) does not end of itself. While it pushes, the array
  fills: an array holds at most \<open>2^32 - 1\<close> elements, and \<^verbatim>\<open>push\<close> on a full array throws
  a \<^verbatim>\<open>RangeError\<close>. While it pushes nothing, the call does not return: the functions are
  partial, and \<open>None\<close> is the call that does not return. Running out of memory before the
  array is full is left out.
  \<^verbatim>\<open>for (let y = ymin; y <= ymax; y++) urls.push(url)\<close>
\<close>

partial_function (option) yLoop ::
  "int \<Rightarrow> jsnum \<Rightarrow> jsnum \<Rightarrow> jsnum \<Rightarrow> string list \<Rightarrow> (error + string list) option" where
  "yLoop z x y ymax urls =
     (if js_le y ymax then
        (if length urls < 2 ^ 32 - 1
         then yLoop z x (js_inc y) ymax (urls @ [tileUrlOf (Fin z) x y])
         else Some (Inl RangeError))
      else Some (Inr urls))"

partial_function (option) xLoop ::
  "int \<Rightarrow> jsnum \<Rightarrow> jsnum \<Rightarrow> jsnum \<Rightarrow> jsnum \<Rightarrow> string list
     \<Rightarrow> (error + string list) option" where
  "xLoop z x xmax ymin ymax urls =
     (if js_le x xmax then
        (case yLoop z x ymin ymax urls of
           None \<Rightarrow> None
         | Some (Inl e) \<Rightarrow> Some (Inl e)
         | Some (Inr urls') \<Rightarrow> xLoop z (js_inc x) xmax ymin ymax urls')
      else Some (Inr urls))"

text \<open>
  \<^verbatim>\<open>for (let z = minZoom; z <= maxZoom; z++)\<close>: the two corner tiles, then the \<open>x\<close> loop
  from \<^verbatim>\<open>Math.min(nwTile.x, seTile.x)\<close> to \<^verbatim>\<open>Math.max(nwTile.x, seTile.x)\<close> and the
  \<open>y\<close> loop likewise. \<^verbatim>\<open>z++\<close> is the sum rounded to a double.
\<close>

partial_function (option) zLoop ::
  "('n, jsnum) Math \<Rightarrow> 'n bounds \<Rightarrow> int \<Rightarrow> int \<Rightarrow> string list
     \<Rightarrow> (error + string list) option" where
  "zLoop M b z maxZoom urls =
     (if z \<le> maxZoom then
        (case latLngToTile M (north b) (west b) z of
           Inl e \<Rightarrow> Some (Inl e)
         | Inr nwTile \<Rightarrow>
             (case latLngToTile M (south b) (east b) z of
                Inl e \<Rightarrow> Some (Inl e)
              | Inr seTile \<Rightarrow>
                  (case xLoop z (Math_min (tileX nwTile) (tileX seTile))
                          (Math_max (tileX nwTile) (tileX seTile))
                          (Math_min (tileY nwTile) (tileY seTile))
                          (Math_max (tileY nwTile) (tileY seTile)) urls of
                     None \<Rightarrow> None
                   | Some (Inl e) \<Rightarrow> Some (Inl e)
                   | Some (Inr urls') \<Rightarrow> zLoop M b (roundWhole (z + 1)) maxZoom urls')))
      else Some (Inr urls))"

definition generateTileUrls ::
  "('n, jsnum) Math \<Rightarrow> 'n bounds \<Rightarrow> int \<Rightarrow> int \<Rightarrow> (error + string list) option" where
  "generateTileUrls M b minZoom maxZoom = zLoop M b minZoom maxZoom []"

text \<open>
  \<^verbatim>\<open>estimateTileCount\<close>: per zoom, \<^verbatim>\<open>width = Math.abs(seTile.x - nwTile.x) + 1\<close>,
  \<^verbatim>\<open>height = Math.abs(seTile.y - nwTile.y) + 1\<close>, \<^verbatim>\<open>count += width * height\<close>. It takes
  and returns no store and no network: it is a function of the box and the zooms only.
\<close>

partial_function (option) countLoop ::
  "('n, jsnum) Math \<Rightarrow> 'n bounds \<Rightarrow> int \<Rightarrow> int \<Rightarrow> jsnum \<Rightarrow> (error + jsnum) option" where
  "countLoop M b z maxZoom count =
     (if z \<le> maxZoom then
        (case latLngToTile M (north b) (west b) z of
           Inl e \<Rightarrow> Some (Inl e)
         | Inr nwTile \<Rightarrow>
             (case latLngToTile M (south b) (east b) z of
                Inl e \<Rightarrow> Some (Inl e)
              | Inr seTile \<Rightarrow>
                  (let width = js_add (Math_abs (js_sub (tileX seTile) (tileX nwTile))) (Fin 1);
                       height = js_add (Math_abs (js_sub (tileY seTile) (tileY nwTile))) (Fin 1)
                   in countLoop M b (roundWhole (z + 1)) maxZoom
                        (js_add count (js_mul width height)))))
      else Some (Inr count))"

declare digits.simps [simp del]
declare ulp.simps [simp del]

definition estimateTileCount ::
  "('n, jsnum) Math \<Rightarrow> 'n bounds \<Rightarrow> int \<Rightarrow> int \<Rightarrow> (error + jsnum) option" where
  "estimateTileCount M b minZoom maxZoom = countLoop M b minZoom maxZoom (Fin 0)"

section \<open>Tile URLs elsewhere (service-worker.js, map-manager.js)\<close>

text \<open>The service worker's own copy of \<^verbatim>\<open>latLngToTile\<close>, with the same body.\<close>

definition sw_latLngToTile :: "('n, 'i) Math \<Rightarrow> 'n \<Rightarrow> 'n \<Rightarrow> int \<Rightarrow> error + 'i tile" where
  "sw_latLngToTile M lat lng zoom =
     (let x = lngToTileX M lng zoom;
          y = latToTileY M lat zoom
      in Inr \<lparr>tileX = x, tileY = y\<rparr>)"

text \<open>
  \<^verbatim>\<open>generateTileURLsForLocation(lat, lon, radiusKm, zoomLevels)\<close>: the box around the
  centre, \<^verbatim>\<open>latOffset = radiusKm / 111\<close> and
  \<^verbatim>\<open>lonOffset = radiusKm / (111 * Math.cos(lat * Math.PI / 180))\<close>, then
  \<^verbatim>\<open>for (const z of zoomLevels)\<close> with the same two inner loops.
\<close>

definition locationBounds :: "('n, 'i) Math \<Rightarrow> 'n \<Rightarrow> 'n \<Rightarrow> 'n \<Rightarrow> 'n bounds" where
  "locationBounds M lat lon radiusKm =
     (let latOffset = num_div M radiusKm (num_lit M 111);
          lonOffset = num_div M radiusKm
            (num_mul M (num_lit M 111)
               (Math_cos M (num_div M (num_mul M lat (Math_PI M)) (num_lit M 180))))
      in \<lparr>north = num_add M lat latOffset, south = num_sub M lat latOffset,
          east = num_add M lon lonOffset, west = num_sub M lon lonOffset\<rparr>)"

fun zoomLevelsLoop ::
  "('n, jsnum) Math \<Rightarrow> 'n bounds \<Rightarrow> int list \<Rightarrow> string list
     \<Rightarrow> (error + string list) option" where
  "zoomLevelsLoop M b [] urls = Some (Inr urls)"
| "zoomLevelsLoop M b (z # zoomLevels) urls =
     (case sw_latLngToTile M (north b) (west b) z of
        Inl e \<Rightarrow> Some (Inl e)
      | Inr nwTile \<Rightarrow>
          (case sw_latLngToTile M (south b) (east b) z of
             Inl e \<Rightarrow> Some (Inl e)
           | Inr seTile \<Rightarrow>
               (case xLoop z (Math_min (tileX nwTile) (tileX seTile))
                       (Math_max (tileX nwTile) (tileX seTile))
                       (Math_min (tileY nwTile) (tileY seTile))
                       (Math_max (tileY nwTile) (tileY seTile)) urls of
                  None \<Rightarrow> None
                | Some (Inl e) \<Rightarrow> Some (Inl e)
                | Some (Inr urls') \<Rightarrow> zoomLevelsLoop M b zoomLevels urls')))"

definition generateTileURLsForLocation ::
  "('n, jsnum) Math \<Rightarrow> 'n \<Rightarrow> 'n \<Rightarrow> 'n \<Rightarrow> int list \<Rightarrow> (error + string list) option" where
  "generateTileURLsForLocation M lat lon radiusKm zoomLevels =
     zoomLevelsLoop M (locationBounds M lat lon radiusKm) zoomLevels []"

text \<open>
  \<^verbatim>\<open>MapManager.getVisibleTiles\<close>: the map widget supplies the north-west and south-east
  corners of the viewport and the zoom; the loops run from \<^verbatim>\<open>nwTile.x\<close> to
  \<^verbatim>\<open>seTile.x\<close> and from \<^verbatim>\<open>nwTile.y\<close> to \<^verbatim>\<open>seTile.y\<close>. Its \<^verbatim>\<open>latLngToTile\<close>
  takes the corner as one object.
\<close>

record 'n LatLng =
  LatLng_lat :: 'n
  LatLng_lng :: 'n

definition mm_latLngToTile :: "('n, 'i) Math \<Rightarrow> 'n LatLng \<Rightarrow> int \<Rightarrow> error + 'i tile" where
  "mm_latLngToTile M latLng zoom =
     (let lat = LatLng_lat latLng;
          lng = LatLng_lng latLng;
          x = lngToTileX M lng zoom;
          y = latToTileY M lat zoom
      in Inr \<lparr>tileX = x, tileY = y\<rparr>)"

definition getVisibleTiles ::
  "('n, jsnum) Math \<Rightarrow> 'n LatLng \<Rightarrow> 'n LatLng \<Rightarrow> int \<Rightarrow> (error + string list) option" where
  "getVisibleTiles M northWest southEast zoom =
     (case mm_latLngToTile M northWest zoom of
        Inl e \<Rightarrow> Some (Inl e)
      | Inr nwTile \<Rightarrow>
          (case mm_latLngToTile M southEast zoom of
             Inl e \<Rightarrow> Some (Inl e)
           | Inr seTile \<Rightarrow>
               xLoop zoom (tileX nwTile) (tileX seTile) (tileY nwTile) (tileY seTile) []))"

section \<open>Responses, the cache storage, the network\<close>

type_synonym url = string

record response =
  status :: nat
  statusText :: string
  headers :: "(string \<times> string) list"
  body :: string

text \<open>\<^verbatim>\<open>response.ok\<close>: the status is in the range 200 to 299.\<close>

definition ok :: "response \<Rightarrow> bool" where
  "ok r = (200 \<le> status r \<and> status r \<le> 299)"

text \<open>
  One named cache is a list of entries keyed by URL, in insertion order, with at most one
  entry per key; the cache storage is the list of the named caches. Requests are GET
  requests, identified by their URL.
\<close>

type_synonym cache = "(url \<times> response) list"

type_synonym cacheStorage = "(string \<times> cache) list"

definition caches_keys :: "cacheStorage \<Rightarrow> string list" where
  "caches_keys cs = map fst cs"

text \<open>\<^verbatim>\<open>caches.open(name)\<close> creates the named cache when there is none.\<close>

definition caches_open :: "string \<Rightarrow> cacheStorage \<Rightarrow> cacheStorage" where
  "caches_open name cs = (if name \<in> set (caches_keys cs) then cs else cs @ [(name, [])])"

definition caches_delete :: "string \<Rightarrow> cacheStorage \<Rightarrow> cacheStorage" where
  "caches_delete name cs = filter (\<lambda>entry. fst entry \<noteq> name) cs"

text \<open>The entries of a named cache; none when there is no cache of that name.\<close>

definition cacheOf :: "cacheStorage \<Rightarrow> string \<Rightarrow> cache" where
  "cacheOf cs name = (case map_of cs name of None \<Rightarrow> [] | Some c \<Rightarrow> c)"

definition cache_keys :: "cache \<Rightarrow> url list" where
  "cache_keys c = map fst c"

definition cache_match :: "cache \<Rightarrow> url \<Rightarrow> response option" where
  "cache_match c u = map_of c u"

text \<open>\<^verbatim>\<open>cache.put(url, response)\<close> replaces the entry of the key, if any.\<close>

definition cache_put :: "url \<Rightarrow> response \<Rightarrow> cache \<Rightarrow> cache" where
  "cache_put u r c = filter (\<lambda>entry. fst entry \<noteq> u) c @ [(u, r)]"

definition caches_modify :: "string \<Rightarrow> (cache \<Rightarrow> cache) \<Rightarrow> cacheStorage \<Rightarrow> cacheStorage" where
  "caches_modify name f cs = map (\<lambda>entry. if fst entry = name then (name, f (snd entry)) else entry) cs"

text \<open>
  The host outside the program: \<open>respond H n u\<close> is the outcome of the \<open>n\<close>-th
  \<^verbatim>\<open>fetch\<close> of the run when it asks for \<open>u\<close> (a response of any status, or a rejection),
  and \<open>putRejects H u r\<close> says whether \<^verbatim>\<open>cache.put(u, r)\<close> is rejected (a partial
  response, a full disk). \<^verbatim>\<open>caches.open\<close>, \<^verbatim>\<open>caches.delete\<close>, \<^verbatim>\<open>cache.match\<close> and
  \<^verbatim>\<open>cache.keys\<close> are taken to succeed, and a \<^verbatim>\<open>fetch\<close> to leave the cache storage as
  it is.
\<close>

record host =
  respond :: "nat \<Rightarrow> url \<Rightarrow> error + response"
  putRejects :: "url \<Rightarrow> response \<Rightarrow> bool"

text \<open>
  What the program can change: the cache storage, \<^verbatim>\<open>navigator.onLine\<close>, the URLs
  fetched so far (the network-call counter is the length of the list), and the calls made
  to a progress callback. Console output and the page's elements are left out.
\<close>

record world =
  caches :: cacheStorage
  onLine :: bool
  netCalls :: "url list"
  progress :: "(nat \<times> nat) list"

definition fetch :: "host \<Rightarrow> world \<Rightarrow> url \<Rightarrow> (error + response) \<times> world" where
  "fetch H W u = (respond H (length (netCalls W)) u, W\<lparr>netCalls := netCalls W @ [u]\<rparr>)"

definition open_cache :: "string \<Rightarrow> world \<Rightarrow> world" where
  "open_cache name W = W\<lparr>caches := caches_open name (caches W)\<rparr>"

text \<open>\<^verbatim>\<open>cache.put(u, r)\<close> on the handle of the cache \<open>name\<close>: \<open>Inl\<close> when it is rejected.\<close>

definition put :: "host \<Rightarrow> string \<Rightarrow> url \<Rightarrow> response \<Rightarrow> world \<Rightarrow> (error + unit) \<times> world" where
  "put H name u r W =
     (if putRejects H u r then (Inl TypeError, W)
      else (Inr (), W\<lparr>caches := caches_modify name (cache_put u r) (caches W)\<rparr>))"

section \<open>TileCache (app.js)\<close>

record tileCache =
  cacheName :: string
  staticCacheName :: string
  maxCacheSize :: nat
  tileQueue :: "url list"
  isDownloading :: bool

text \<open>The fields as the constructor sets them.\<close>

definition newTileCache :: tileCache where
  "newTileCache =
     \<lparr>cacheName = ''geocoordinate-tiles-v1'', staticCacheName = ''geocoordinate-static-v1'',
      maxCacheSize = 500, tileQueue = [], isDownloading = False\<rparr>"

text \<open>
  \<^verbatim>\<open>updateCacheInfo\<close>: opens the tile cache and returns the number of its keys.
\<close>

definition updateCacheInfo :: "tileCache \<Rightarrow> world \<Rightarrow> nat \<times> world" where
  "updateCacheInfo t W =
     (let W1 = open_cache (cacheName t) W;
          keys = cache_keys (cacheOf (caches W1) (cacheName t));
          count = length keys
      in (count, W1))"

text \<open>
  \<^verbatim>\<open>cacheTile(url)\<close>: \<^verbatim>\<open>true\<close> when the response was ok and was put; \<^verbatim>\<open>false\<close> when
  it was not ok, and from the \<^verbatim>\<open>catch\<close> when the fetch or the put was rejected.
\<close>

definition cacheTile :: "host \<Rightarrow> tileCache \<Rightarrow> world \<Rightarrow> url \<Rightarrow> bool \<times> world" where
  "cacheTile H t W u =
     (let W1 = open_cache (cacheName t) W in
      case fetch H W1 u of
        (Inl e, W2) \<Rightarrow> (False, W2)
      | (Inr response, W2) \<Rightarrow>
          if ok response then
            (case put H (cacheName t) u response W2 of
               (Inl e, W3) \<Rightarrow> (False, W3)
             | (Inr done, W3) \<Rightarrow> (True, W3))
          else (False, W2))"

text \<open>
  The loop of \<^verbatim>\<open>cacheTiles\<close>. The \<^verbatim>\<open>try\<close> block fetches and, when the response is ok,
  puts; its \<^verbatim>\<open>catch\<close> only logs. After the block, on every path, come
  \<^verbatim>\<open>completed++\<close> and the progress callback, when one was given.
\<close>

fun cacheTilesLoop ::
  "host \<Rightarrow> string \<Rightarrow> url list \<Rightarrow> nat \<Rightarrow> nat \<Rightarrow> bool \<Rightarrow> world \<Rightarrow> nat \<times> world" where
  "cacheTilesLoop H name [] completed total' onProgress W = (completed, W)"
| "cacheTilesLoop H name (u # urls) completed total' onProgress W =
     (let W1 = (case fetch H W u of
                  (Inl e, W') \<Rightarrow> W'
                | (Inr response, W') \<Rightarrow>
                    if ok response then snd (put H name u response W') else W');
          completed' = completed + 1;
          W2 = (if onProgress then W1\<lparr>progress := progress W1 @ [(completed', total')]\<rparr> else W1)
      in cacheTilesLoop H name urls completed' total' onProgress W2)"

text \<open>
  \<^verbatim>\<open>cacheTiles(urls, onProgress)\<close>; \<open>onProgress\<close> says whether a callback was given.
  The result is \<^verbatim>\<open>completed\<close>; \<open>total'\<close> is the source's \<^verbatim>\<open>total\<close>.
\<close>

definition cacheTiles :: "host \<Rightarrow> tileCache \<Rightarrow> world \<Rightarrow> url list \<Rightarrow> bool \<Rightarrow> nat \<times> world" where
  "cacheTiles H t W urls onProgress =
     (let W0 = open_cache (cacheName t) W;
          total' = length urls
      in case cacheTilesLoop H (cacheName t) urls 0 total' onProgress W0 of
           (completed, W1) \<Rightarrow> (completed, snd (updateCacheInfo t W1)))"

text \<open>
  \<^verbatim>\<open>downloadArea\<close>: sets the flag, builds the URLs, awaits \<^verbatim>\<open>cacheTiles\<close>, clears the
  flag and returns the count. The flag is written twice and read nowhere. When building
  the URLs throws, the promise is rejected with the flag still set; when it does not
  return, neither does \<^verbatim>\<open>downloadArea\<close>.
\<close>

definition downloadArea ::
  "host \<Rightarrow> ('n, jsnum) Math \<Rightarrow> tileCache \<Rightarrow> world \<Rightarrow> 'n bounds \<Rightarrow> int \<Rightarrow> int \<Rightarrow> bool
     \<Rightarrow> ((error + nat) \<times> tileCache \<times> world) option" where
  "downloadArea H M t W b minZoom maxZoom onProgress =
     (let t1 = t\<lparr>isDownloading := True\<rparr> in
      case generateTileUrls M b minZoom maxZoom of
        None \<Rightarrow> None
      | Some (Inl e) \<Rightarrow> Some (Inl e, t1, W)
      | Some (Inr urls) \<Rightarrow>
          (case cacheTiles H t1 W urls onProgress of
             (cached, W') \<Rightarrow> Some (Inr cached, t1\<lparr>isDownloading := False\<rparr>, W')))"

text \<open>\<^verbatim>\<open>clearCache\<close>: deletes the tile cache, then \<^verbatim>\<open>updateCacheInfo\<close> opens an empty one.\<close>

definition clearCache :: "tileCache \<Rightarrow> world \<Rightarrow> world" where
  "clearCache t W =
     snd (updateCacheInfo t (W\<lparr>caches := caches_delete (cacheName t) (caches W)\<rparr>))"

text \<open>
  \<^verbatim>\<open>checkCacheSize\<close>: the count from \<^verbatim>\<open>updateCacheInfo\<close>; above \<^verbatim>\<open>maxCacheSize\<close> it
  writes a warning to the console and does nothing else. The result says whether it
  warned.
\<close>

definition checkCacheSize :: "tileCache \<Rightarrow> world \<Rightarrow> bool \<times> world" where
  "checkCacheSize t W =
     (case updateCacheInfo t W of (count, W') \<Rightarrow> (count > maxCacheSize t, W'))"

section \<open>The service worker (service-worker.js)\<close>

definition CACHE_VERSION :: string where
  "CACHE_VERSION = ''v1''"

definition STATIC_CACHE :: string where
  "STATIC_CACHE = ''geocoordinate-static-'' @ CACHE_VERSION"

definition TILE_CACHE :: string where
  "TILE_CACHE = ''geocoordinate-tiles-'' @ CACHE_VERSION"

definition DYNAMIC_CACHE :: string where
  "DYNAMIC_CACHE = ''geocoordinate-dynamic-'' @ CACHE_VERSION"

text \<open>
  The \<^verbatim>\<open>activate\<close> listener: for every name of \<^verbatim>\<open>caches.keys()\<close> that is none of the
  three current names, \<^verbatim>\<open>caches.delete(cacheName)\<close>.
\<close>

definition activate :: "world \<Rightarrow> world" where
  "activate W =
     W\<lparr>caches :=
        fold (\<lambda>cacheName cs.
                if cacheName \<noteq> STATIC_CACHE \<and> cacheName \<noteq> TILE_CACHE \<and> cacheName \<noteq> DYNAMIC_CACHE
                then caches_delete cacheName cs else cs)
          (caches_keys (caches W)) (caches W)\<rparr>"

text \<open>The \<^verbatim>\<open>CLEAR_CACHE\<close> message: every name of \<^verbatim>\<open>caches.keys()\<close> is deleted.\<close>

definition clearAllCaches :: "world \<Rightarrow> world" where
  "clearAllCaches W =
     W\<lparr>caches := fold (\<lambda>cacheName cs. caches_delete cacheName cs) (caches_keys (caches W)) (caches W)\<rparr>"

text \<open>
  \<^verbatim>\<open>handleTileRequest\<close>, cache first. A rejected fetch reaches the \<^verbatim>\<open>catch\<close>, which
  answers 500. The put of a fetched copy is not awaited: a rejected put changes nothing.
  A response built from a string carries the content type of plain text.
\<close>

definition handleTileRequest :: "host \<Rightarrow> world \<Rightarrow> url \<Rightarrow> response \<times> world" where
  "handleTileRequest H W request =
     (let W1 = open_cache TILE_CACHE W in
      case cache_match (cacheOf (caches W1) TILE_CACHE) request of
        Some cachedResponse \<Rightarrow> (cachedResponse, W1)
      | None \<Rightarrow>
          if onLine W1 then
            (case fetch H W1 request of
               (Inl e, W2) \<Rightarrow>
                 (\<lparr>status = 500, statusText = [],
                   headers = [(''content-type'', ''text/plain;charset=UTF-8'')],
                   body = ''Error loading tile''\<rparr>, W2)
             | (Inr networkResponse, W2) \<Rightarrow>
                 (networkResponse,
                  if ok networkResponse then snd (put H TILE_CACHE request networkResponse W2)
                  else W2))
          else
            (\<lparr>status = 404, statusText = ''Tile not cached'',
              headers = [(''content-type'', ''text/plain;charset=UTF-8'')],
              body = ''Tile not available offline''\<rparr>, W1))"

text \<open>\<^verbatim>\<open>JSON.stringify({ error: message })\<close> for a message that needs no escaping.\<close>

definition JSON_error :: "string \<Rightarrow> string" where
  "JSON_error message =
     ''{'' @ [CHR 0x22] @ ''error'' @ [CHR 0x22] @ '':'' @ [CHR 0x22] @ message @ [CHR 0x22] @ ''}''"

text \<open>
  \<^verbatim>\<open>handleApiRequest\<close>, network first. Online, it fetches and returns the response,
  keeping a copy when the response is ok; a rejected fetch reaches the \<^verbatim>\<open>catch\<close>, which
  answers 500. The dynamic cache is read only below the \<^verbatim>\<open>if (navigator.onLine)\<close>
  block, that is when the worker is offline.
\<close>

definition handleApiRequest :: "host \<Rightarrow> world \<Rightarrow> url \<Rightarrow> response \<times> world" where
  "handleApiRequest H W request =
     (if onLine W then
        (case fetch H W request of
           (Inl e, W1) \<Rightarrow>
             (\<lparr>status = 500, statusText = [],
               headers = [(''Content-Type'', ''application/json'')],
               body = JSON_error ''Request failed''\<rparr>, W1)
         | (Inr networkResponse, W1) \<Rightarrow>
             (networkResponse,
              if ok networkResponse
              then snd (put H DYNAMIC_CACHE request networkResponse (open_cache DYNAMIC_CACHE W1))
              else W1))
      else
        (let W1 = open_cache DYNAMIC_CACHE W in
         case cache_match (cacheOf (caches W1) DYNAMIC_CACHE) request of
           Some cachedResponse \<Rightarrow> (cachedResponse, W1)
         | None \<Rightarrow>
             (\<lparr>status = 503, statusText = [],
               headers = [(''Content-Type'', ''application/json'')],
               body = JSON_error ''Offline - data not cached''\<rparr>, W1)))"

section \<open>The specification's notions\<close>

text \<open>
  A whole number is safe when its magnitude is below \<open>2^53\<close>: there the doubles hold
  every whole number and \<^verbatim>\<open>x++\<close> is exact. The corners of a box are safe at a zoom when
  the four tile coordinates are safe whole numbers.
\<close>

definition safe :: "int \<Rightarrow> bool" where
  "safe n = (- (2 ^ 53) < n \<and> n < 2 ^ 53)"

definition safeTile :: "jsnum \<Rightarrow> bool" where
  "safeTile v = (case v of Fin n \<Rightarrow> safe n | PosInf \<Rightarrow> False | NegInf \<Rightarrow> False | NaN \<Rightarrow> False)"

definition safeCorners :: "('n, jsnum) Math \<Rightarrow> 'n bounds \<Rightarrow> int \<Rightarrow> bool" where
  "safeCorners M b z =
     (safeTile (lngToTileX M (west b) z) \<and> safeTile (lngToTileX M (east b) z)
      \<and> safeTile (latToTileY M (north b) z) \<and> safeTile (latToTileY M (south b) z))"

text \<open>
  The specification's \<open>tilesInBoundingBox\<close>, in its own words: for each zoom of the
  list, the tiles of the box's two extreme corners, then every integer \<open>x\<close> in
  \<open>[min, max]\<close> and every integer \<open>y\<close> in \<open>[min, max]\<close>, one tile per \<open>(z, x, y)\<close>.
  Where a corner is no whole number there are no integers to enumerate.
\<close>

definition tileRange :: "jsnum \<Rightarrow> jsnum \<Rightarrow> int list" where
  "tileRange a b =
     (case a of
        Fin m \<Rightarrow> (case b of Fin n \<Rightarrow> [min m n..max m n] | PosInf \<Rightarrow> [] | NegInf \<Rightarrow> [] | NaN \<Rightarrow> [])
      | PosInf \<Rightarrow> [] | NegInf \<Rightarrow> [] | NaN \<Rightarrow> [])"

definition tilesAt :: "('n, jsnum) Math \<Rightarrow> 'n bounds \<Rightarrow> int \<Rightarrow> (int \<times> int \<times> int) list" where
  "tilesAt M b z =
     concat (map (\<lambda>x. map (\<lambda>y. (z, x, y))
        (tileRange (latToTileY M (north b) z) (latToTileY M (south b) z)))
        (tileRange (lngToTileX M (west b) z) (lngToTileX M (east b) z)))"

definition tilesInBoundingBox ::
  "('n, jsnum) Math \<Rightarrow> 'n bounds \<Rightarrow> int list \<Rightarrow> (int \<times> int \<times> int) list" where
  "tilesInBoundingBox M b zoomLevels = concat (map (tilesAt M b) zoomLevels)"

text \<open>The order of the specification: zoom first, then \<open>x\<close>, then \<open>y\<close>, strictly.\<close>

definition tileBefore :: "int \<times> int \<times> int \<Rightarrow> int \<times> int \<times> int \<Rightarrow> bool" where
  "tileBefore a b =
     (case a of (z, x, y) \<Rightarrow> case b of (z', x', y') \<Rightarrow>
        z < z' \<or> (z = z' \<and> (x < x' \<or> (x = x' \<and> y < y'))))"

text \<open>The template up to its first placeholder.\<close>

definition tilePrefix :: string where
  "tilePrefix =
     ''https://server.arcgisonline.com/ArcGIS/rest/services/World_Imagery/MapServer/tile/''"

text \<open>The provider's path order, \<open>z/y/x\<close>, and the other order, \<open>z/x/y\<close>.\<close>

definition zyxUrl :: "int \<Rightarrow> int \<Rightarrow> int \<Rightarrow> string" where
  "zyxUrl z x y = tilePrefix @ ToString z @ ''/'' @ ToString y @ ''/'' @ ToString x"

definition zxyUrl :: "int \<Rightarrow> int \<Rightarrow> int \<Rightarrow> string" where
  "zxyUrl z x y = tilePrefix @ ToString z @ ''/'' @ ToString x @ ''/'' @ ToString y"

text \<open>
  The two orders for loop variables of every value, each printed as the host prints it.
\<close>

definition zyxUrlOf :: "jsnum \<Rightarrow> jsnum \<Rightarrow> jsnum \<Rightarrow> string" where
  "zyxUrlOf z x y =
     tilePrefix @ NumberToString z @ ''/'' @ NumberToString y @ ''/'' @ NumberToString x"

definition zxyUrlOf :: "jsnum \<Rightarrow> jsnum \<Rightarrow> jsnum \<Rightarrow> string" where
  "zxyUrlOf z x y =
     tilePrefix @ NumberToString z @ ''/'' @ NumberToString x @ ''/'' @ NumberToString y"

section \<open>Inputs of the examples\<close>

text \<open>A host whose every fetch is answered 200 and that accepts every put.\<close>

definition okHost :: host where
  "okHost =
     \<lparr>respond = (\<lambda>n u. Inr \<lparr>status = 200, statusText = ''OK'', headers = [], body = u\<rparr>),
      putRejects = (\<lambda>u r. False)\<rparr>"

text \<open>A host whose first fetch is rejected and whose later fetches are answered 404.\<close>

definition failingHost :: host where
  "failingHost =
     \<lparr>respond = (\<lambda>n u. if n = 0 then Inl TypeError
                         else Inr \<lparr>status = 404, statusText = ''Not Found'', headers = [], body = []\<rparr>),
      putRejects = (\<lambda>u r. False)\<rparr>"

text \<open>The world before anything ran: no cache, online, nothing fetched.\<close>

definition freshWorld :: world where
  "freshWorld = \<lparr>caches = [], onLine = True, netCalls = [], progress = []\<rparr>"

text \<open>The box that is the single point at latitude 0 and longitude 0.\<close>

definition originBox :: "real bounds" where
  "originBox = \<lparr>north = 0, south = 0, east = 0, west = 0\<rparr>"

section \<open>Decimal numerals\<close>

lemma digit_char: "n < 10 \<Longrightarrow> ''0123456789'' ! n \<in> set ''0123456789''"
  by (rule nth_mem) simp

lemma digits_chars: "set (digits n) \<subseteq> set ''0123456789''"
proof (induction n rule: digits.induct)
  case (1 n)
  show ?case
  proof (cases "n < 10")
    case True
    then show ?thesis using digit_char [of n] by (subst digits.simps) simp
  next
    case False
    have "n mod 10 < 10" by simp
    then show ?thesis
      using False 1 digit_char [of "n mod 10"] by (subst digits.simps) simp
  qed
qed

lemma ToString_chars: "set (ToString n) \<subseteq> set ''-0123456789''"
proof -
  have sub: "set ''0123456789'' \<subseteq> set ''-0123456789''"
    by (simp add: subset_insertI)
  have "set (digits k) \<subseteq> set ''-0123456789''" for k
    using digits_chars [of k] sub by (rule subset_trans)
  then show ?thesis
    by (simp add: ToString_def)
qed

lemma ToString_no_brace: "CHR ''{'' \<notin> set (ToString n)"
proof
  assume "CHR ''{'' \<in> set (ToString n)"
  then have "CHR ''{'' \<in> set ''-0123456789''"
    using ToString_chars [of n] by (rule subsetD [rotated])
  then show False by simp
qed

lemma ToString_no_slash: "CHR ''/'' \<notin> set (ToString n)"
proof
  assume "CHR ''/'' \<in> set (ToString n)"
  then have "CHR ''/'' \<in> set ''-0123456789''"
    using ToString_chars [of n] by (rule subsetD [rotated])
  then show False by simp
qed

lemma digits_small: "n < 10 \<Longrightarrow> digits n = [''0123456789'' ! n]"
  by (subst digits.simps) simp

lemma digits_large:
  "\<not> n < 10 \<Longrightarrow> digits n = digits (n div 10) @ [''0123456789'' ! (n mod 10)]"
  by (subst digits.simps) simp

lemma digits_not_Nil: "digits n \<noteq> []"
  by (cases "n < 10") (simp_all add: digits_small digits_large)

lemma digit_inject:
  assumes "i < 10" and "j < 10" and "''0123456789'' ! i = ''0123456789'' ! j"
  shows "i = j"
proof -
  have "distinct ''0123456789''" by simp
  moreover have "i < length ''0123456789''" and "j < length ''0123456789''"
    using assms(1,2) by simp_all
  ultimately show ?thesis
    using assms(3) by (simp only: nth_eq_iff_index_eq)
qed

lemma digits_inject: "digits n = digits m \<Longrightarrow> n = m"
proof (induction n arbitrary: m rule: digits.induct)
  case (1 n)
  show ?case
  proof (cases "n < 10")
    case True
    have m: "m < 10"
    proof (rule ccontr)
      assume "\<not> m < 10"
      then have "digits (m div 10) @ [''0123456789'' ! (m mod 10)] = [''0123456789'' ! n]"
        using 1(2) True by (simp add: digits_small digits_large)
      then show False using digits_not_Nil [of "m div 10"] by simp
    qed
    then have "''0123456789'' ! n = ''0123456789'' ! m"
      using 1(2) True by (simp add: digits_small)
    then show ?thesis using True m by (rule digit_inject [rotated 2])
  next
    case False
    have m: "\<not> m < 10"
    proof
      assume "m < 10"
      then have "digits (n div 10) @ [''0123456789'' ! (n mod 10)] = [''0123456789'' ! m]"
        using 1(2) False by (simp add: digits_small digits_large)
      then show False using digits_not_Nil [of "n div 10"] by simp
    qed
    have eq: "digits (n div 10) @ [''0123456789'' ! (n mod 10)] =
        digits (m div 10) @ [''0123456789'' ! (m mod 10)]"
      using 1(2) False m by (simp add: digits_large)
    then have "digits (n div 10) = digits (m div 10)"
      and last: "''0123456789'' ! (n mod 10) = ''0123456789'' ! (m mod 10)"
      by simp_all
    then have "n div 10 = m div 10"
      using 1(1) [OF False] by blast
    moreover have "n mod 10 = m mod 10"
      using last by (intro digit_inject) simp_all
    ultimately show ?thesis
      by (metis div_mult_mod_eq)
  qed
qed

lemma digits_no_minus: "CHR ''-'' \<notin> set (digits n)"
proof
  assume "CHR ''-'' \<in> set (digits n)"
  then have "CHR ''-'' \<in> set ''0123456789''"
    using digits_chars [of n] by (rule subsetD [rotated])
  then show False by simp
qed

lemma ToString_inject: "ToString n = ToString m \<Longrightarrow> n = m"
proof -
  assume eq: "ToString n = ToString m"
  have neg: False if "a < 0" and "\<not> b < 0" and "ToString a = ToString b" for a b
  proof -
    have "CHR ''-'' # digits (nat (- a)) = digits (nat b)"
      using that by (simp add: ToString_def)
    then have "CHR ''-'' \<in> set (digits (nat b))"
      by (metis list.set_intros(1))
    then show False using digits_no_minus by blast
  qed
  show ?thesis
  proof (cases "n < 0")
    case True
    then have m: "m < 0" using neg [of n m] eq by blast
    then have "digits (nat (- n)) = digits (nat (- m))"
      using eq True by (simp add: ToString_def)
    then have "nat (- n) = nat (- m)" by (rule digits_inject)
    then show ?thesis using True m by simp
  next
    case False
    then have m: "\<not> m < 0" using neg [of m n] eq by metis
    then have "digits (nat n) = digits (nat m)"
      using eq False by (simp add: ToString_def)
    then have "nat n = nat m" by (rule digits_inject)
    then show ?thesis using False m by simp
  qed
qed

lemma split_at_separator:
  "c \<notin> set a \<Longrightarrow> c \<notin> set b \<Longrightarrow> a @ c # r = b @ c # r' \<Longrightarrow> a = b \<and> r = r'"
proof (induction a arbitrary: b)
  case Nil
  then show ?case by (cases b) auto
next
  case (Cons x a)
  then show ?case by (cases b) auto
qed

section \<open>The template\<close>

lemma replace_skip:
  "c \<notin> set s \<Longrightarrow> String_replace (s @ rest) (c # p) r = s @ String_replace rest (c # p) r"
  by (induction s) auto

lemma replace_hit: "String_replace (pat @ rest) pat r = r @ rest"
proof (cases "pat @ rest")
  case Nil
  then show ?thesis by simp
next
  case (Cons a list)
  have "take (length pat) (a # list) = pat" and "drop (length pat) (a # list) = rest"
    unfolding Cons [symmetric] by simp_all
  then show ?thesis unfolding Cons by simp
qed

lemma tilePrefix_no_brace: "CHR ''{'' \<notin> set tilePrefix"
  by (simp add: tilePrefix_def)

lemma baseUrl_split: "baseUrl = tilePrefix @ ''{z}'' @ ''/{y}/{x}''"
  by (simp add: baseUrl_def tilePrefix_def)

lemma replace_z:
  "String_replace baseUrl ''{z}'' (ToString z) = tilePrefix @ ToString z @ ''/{y}/{x}''"
  unfolding baseUrl_split
  by (simp only: replace_skip [OF tilePrefix_no_brace] replace_hit)

lemma replace_x:
  "String_replace (tilePrefix @ ToString z @ ''/{y}/{x}'') ''{x}'' (ToString x) =
     tilePrefix @ ToString z @ ''/{y}/'' @ ToString x"
  by (simp add: replace_skip [OF tilePrefix_no_brace] replace_skip [OF ToString_no_brace])

lemma replace_y:
  "String_replace (tilePrefix @ ToString z @ ''/{y}/'' @ ToString x) ''{y}'' (ToString y) =
     tilePrefix @ ToString z @ ''/'' @ ToString y @ ''/'' @ ToString x"
  by (simp add: replace_skip [OF tilePrefix_no_brace] replace_skip [OF ToString_no_brace])

lemma tileUrl_zyx: "tileUrl z x y = zyxUrl z x y"
  unfolding tileUrl_def zyxUrl_def replace_z replace_x replace_y ..

lemma zyxUrl_inject:
  assumes "zyxUrl z x y = zyxUrl z' x' y'"
  shows "z = z' \<and> x = x' \<and> y = y'"
proof -
  have "ToString z @ CHR ''/'' # (ToString y @ ''/'' @ ToString x) =
      ToString z' @ CHR ''/'' # (ToString y' @ ''/'' @ ToString x')"
    using assms by (simp add: zyxUrl_def)
  then have z: "ToString z = ToString z'"
    and rest: "ToString y @ CHR ''/'' # ToString x = ToString y' @ CHR ''/'' # ToString x'"
    using split_at_separator [OF ToString_no_slash ToString_no_slash] by fastforce+
  have "ToString y = ToString y' \<and> ToString x = ToString x'"
    using rest by (rule split_at_separator [OF ToString_no_slash ToString_no_slash])
  then show ?thesis
    using z by (simp add: ToString_inject)
qed

lemma zyx_is_zxy: "(zyxUrl z x y = zxyUrl z x y) = (x = y)"
proof
  assume "zyxUrl z x y = zxyUrl z x y"
  then have "zyxUrl z x y = zyxUrl z y x"
    by (simp add: zyxUrl_def zxyUrl_def)
  then show "x = y" using zyxUrl_inject by blast
next
  assume "x = y"
  then show "zyxUrl z x y = zxyUrl z x y"
    by (simp add: zyxUrl_def zxyUrl_def)
qed

section \<open>Rounding\<close>

lemma ulp_small: "a < 2 ^ 53 \<Longrightarrow> ulp a = 1"
  by (subst ulp.simps) simp

lemma ulp_large: "\<not> a < 2 ^ 53 \<Longrightarrow> ulp a = 2 * ulp (a div 2)"
  by (subst ulp.simps) simp

lemma roundWhole_exact:
  assumes "\<bar>m\<bar> \<le> 2 ^ 53"
  shows "roundWhole m = m"
proof (cases "\<bar>m\<bar> < 2 ^ 53")
  case True
  then have "nat \<bar>m\<bar> < 2 ^ 53" by simp
  then have "ulp (nat \<bar>m\<bar>) = 1" by (rule ulp_small)
  then show ?thesis by (simp add: roundWhole_def Let_def mult_sgn_abs)
next
  case False
  then have m: "\<bar>m\<bar> = 2 ^ 53" using assms by simp
  then have n: "nat \<bar>m\<bar> = 2 ^ 53" by simp
  have u: "ulp (2 ^ 53) = 2" by (simp add: ulp_small ulp_large)
  have "sgn m * 2 ^ 53 = m" using m by (metis mult_sgn_abs)
  then show ?thesis unfolding roundWhole_def n Let_def u by simp
qed

lemma roundDouble_exact: "\<bar>m\<bar> \<le> 2 ^ 53 \<Longrightarrow> roundDouble m = Fin m"
proof -
  assume a: "\<bar>m\<bar> \<le> 2 ^ 53"
  have "(2::int) ^ 53 < 2 ^ 1024"
    by (rule power_strict_increasing) simp_all
  then have "\<not> 2 ^ 1024 \<le> \<bar>m\<bar>"
    using a by linarith
  then show ?thesis
    by (simp add: roundDouble_def Let_def roundWhole_exact [OF a])
qed

lemma safe_succ: "safe n \<Longrightarrow> \<bar>n + 1\<bar> \<le> 2 ^ 53"
  unfolding safe_def by linarith

lemma js_inc_safe: "safe n \<Longrightarrow> js_inc (Fin n) = Fin (n + 1)"
  unfolding js_inc_def js_add.simps by (rule roundDouble_exact) (rule safe_succ)

lemma roundWhole_succ: "safe z \<Longrightarrow> roundWhole (z + 1) = z + 1"
  by (rule roundWhole_exact) (rule safe_succ)

lemma Math_min_Fin: "Math_min (Fin a) (Fin b) = Fin (min a b)"
  by (simp add: min_def)

lemma Math_max_Fin: "Math_max (Fin a) (Fin b) = Fin (max a b)"
  by (simp add: max_def)

lemma safe_min: "safe a \<Longrightarrow> safe b \<Longrightarrow> safe (min a b)"
  by (simp add: safe_def min_def)

lemma safe_max: "safe a \<Longrightarrow> safe b \<Longrightarrow> safe (max a b)"
  by (simp add: safe_def max_def)

lemma safeTile_Fin: "safeTile v \<Longrightarrow> \<exists>n. v = Fin n \<and> safe n"
  by (cases v) (simp_all add: safeTile_def)

section \<open>Printed numbers\<close>

lemma NumberToString_safe: "safe n \<Longrightarrow> NumberToString (Fin n) = ToString n"
  by (simp add: NumberToString_def wholeToString_def ToString_def safe_def nat_less_iff)

lemma digits_lacks: "c \<notin> set ''0123456789'' \<Longrightarrow> c \<notin> set (digits n)"
  by (rule contra_subsetD [OF digits_chars])

lemma wholeToString_lacks:
  assumes c: "c \<notin> set ''0123456789''"
    and "c \<noteq> CHR ''.''" and "c \<noteq> CHR ''e''" and "c \<noteq> CHR ''+''"
  shows "c \<notin> set (wholeToString a)"
proof -
  note d = digits_lacks [OF c]
  have z: "c \<noteq> CHR ''0''"
    using c by simp
  have parts: "c \<noteq> x \<and> c \<notin> set xs" if "digits s = x # xs" for s x xs
    using d [of s] unfolding that by simp
  show ?thesis
  proof (cases "a < 2 ^ 53")
    case True
    then show ?thesis by (simp add: wholeToString_def d)
  next
    case False
    show ?thesis
    proof (cases "shortestDecimal a")
      case None
      then show ?thesis using False by (simp add: wholeToString_def d)
    next
      case (Some t)
      obtain n k s where t: "t = (n, k, s)"
        by (cases t) auto
      show ?thesis
      proof (cases "n \<le> 21")
        case True
        then show ?thesis
          using False z by (simp add: wholeToString_def Some t d)
      next
        case large: False
        show ?thesis
        proof (cases "digits s")
          case Nil
          then show ?thesis
            using False large by (simp add: wholeToString_def Some t)
        next
          case (Cons x xs)
          then show ?thesis
            using False large parts [OF Cons] assms(2-4) d [of "n - 1"]
            by (simp add: wholeToString_def Some t)
        qed
      qed
    qed
  qed
qed

lemma NumberToString_lacks:
  assumes "c \<notin> set ''0123456789''" and "c \<notin> set ''.e+-InfityNa''"
  shows "c \<notin> set (NumberToString v)"
proof -
  have w: "c \<notin> set (wholeToString a)" for a
    using assms by (intro wholeToString_lacks) simp_all
  show ?thesis
    using assms(2) by (cases v) (simp_all add: NumberToString_def w)
qed

lemma NumberToString_no_brace: "CHR ''{'' \<notin> set (NumberToString v)"
  by (rule NumberToString_lacks) simp_all

lemma NumberToString_no_slash: "CHR ''/'' \<notin> set (NumberToString v)"
  by (rule NumberToString_lacks) simp_all

section \<open>The template over printed numbers\<close>

lemma replace_chain:
  assumes z: "CHR ''{'' \<notin> set zs" and x: "CHR ''{'' \<notin> set xs"
  shows "String_replace (String_replace (String_replace baseUrl ''{z}'' zs) ''{x}'' xs) ''{y}'' ys =
     tilePrefix @ zs @ ''/'' @ ys @ ''/'' @ xs"
proof -
  have 1: "String_replace baseUrl ''{z}'' zs = tilePrefix @ zs @ ''/{y}/{x}''"
    unfolding baseUrl_split
    by (simp only: replace_skip [OF tilePrefix_no_brace] replace_hit)
  have tail2: "String_replace ''/{y}/{x}'' ''{x}'' xs = ''/{y}/'' @ xs"
    by simp
  have 2: "String_replace (tilePrefix @ zs @ ''/{y}/{x}'') ''{x}'' xs =
      tilePrefix @ zs @ ''/{y}/'' @ xs"
    by (simp only: replace_skip [OF tilePrefix_no_brace] replace_skip [OF z] tail2)
  have tail3: "String_replace (''/{y}/'' @ xs) ''{y}'' ys = ''/'' @ ys @ ''/'' @ xs"
    by simp
  have 3: "String_replace (tilePrefix @ zs @ ''/{y}/'' @ xs) ''{y}'' ys =
      tilePrefix @ zs @ ''/'' @ ys @ ''/'' @ xs"
    by (simp only: replace_skip [OF tilePrefix_no_brace] replace_skip [OF z] tail3)
  show ?thesis
    unfolding 1 2 3 ..
qed

lemma tileUrlOf_zyx: "tileUrlOf z x y = zyxUrlOf z x y"
  unfolding tileUrlOf_def zyxUrlOf_def
  by (rule replace_chain [OF NumberToString_no_brace NumberToString_no_brace])

lemma zyxOf_is_zxyOf: "(zyxUrlOf z x y = zxyUrlOf z x y) = (NumberToString x = NumberToString y)"
proof
  assume "zyxUrlOf z x y = zxyUrlOf z x y"
  then have "NumberToString y @ CHR ''/'' # NumberToString x =
      NumberToString x @ CHR ''/'' # NumberToString y"
    by (simp add: zyxUrlOf_def zxyUrlOf_def)
  then have "NumberToString y = NumberToString x \<and> NumberToString x = NumberToString y"
    by (rule split_at_separator [OF NumberToString_no_slash NumberToString_no_slash])
  then show "NumberToString x = NumberToString y" ..
next
  assume "NumberToString x = NumberToString y"
  then show "zyxUrlOf z x y = zxyUrlOf z x y"
    by (simp add: zyxUrlOf_def zxyUrlOf_def)
qed

lemma tileUrlOf_safe:
  "safe z \<Longrightarrow> safe x \<Longrightarrow> safe y \<Longrightarrow> tileUrlOf (Fin z) (Fin x) (Fin y) = tileUrl z x y"
  unfolding tileUrlOf_def tileUrl_def by (simp only: NumberToString_safe)

section \<open>The loops of the URL enumeration\<close>

lemma latLngToTile_Inr:
  "latLngToTile M lat lng zoom =
     Inr \<lparr>tileX = lngToTileX M lng zoom, tileY = latToTileY M lat zoom\<rparr>"
  by (simp add: latLngToTile_def)

lemma sw_latLngToTile_Inr:
  "sw_latLngToTile M lat lng zoom =
     Inr \<lparr>tileX = lngToTileX M lng zoom, tileY = latToTileY M lat zoom\<rparr>"
  by (simp add: sw_latLngToTile_def)

lemma mm_latLngToTile_Inr:
  "mm_latLngToTile M latLng zoom =
     Inr \<lparr>tileX = lngToTileX M (LatLng_lng latLng) zoom,
          tileY = latToTileY M (LatLng_lat latLng) zoom\<rparr>"
  by (simp add: mm_latLngToTile_def)

text \<open>
  Below \<open>2^53\<close> and within the capacity of the array, the \<open>y\<close> loop ends and has pushed the
  URLs of \<open>y, ..., ymax\<close>.
\<close>

lemma yLoop_eq:
  assumes "safe ymax" and "- (2 ^ 53) < y" and "length urls + length [y..ymax] < 2 ^ 32"
  shows "yLoop z x (Fin y) (Fin ymax) urls =
     Some (Inr (urls @ map (\<lambda>y. tileUrlOf (Fin z) x (Fin y)) [y..ymax]))"
  using assms
proof (induction "nat (ymax + 1 - y)" arbitrary: y urls)
  case 0
  then have "\<not> y \<le> ymax" by simp
  then show ?case
    by (subst yLoop.simps) simp
next
  case (Suc n)
  then have le: "y \<le> ymax" by linarith
  have split: "[y..ymax] = y # [y + 1..ymax]"
    using le by (rule upto_rec1)
  have room: "length urls < 2 ^ 32 - 1"
    using Suc.prems(3) unfolding split by simp
  have y: "safe y"
    using le Suc.prems(1,2) unfolding safe_def by auto
  have "yLoop z x (Fin y) (Fin ymax) urls =
      yLoop z x (Fin (y + 1)) (Fin ymax) (urls @ [tileUrlOf (Fin z) x (Fin y)])"
    using le room by (subst yLoop.simps) (simp add: js_inc_safe [OF y])
  also have "\<dots> = Some (Inr ((urls @ [tileUrlOf (Fin z) x (Fin y)]) @
      map (\<lambda>y. tileUrlOf (Fin z) x (Fin y)) [y + 1..ymax]))"
  proof (rule Suc.hyps(1))
    show "n = nat (ymax + 1 - (y + 1))"
      using Suc.hyps(2) by linarith
    show "safe ymax" by (rule Suc.prems(1))
    show "- (2 ^ 53) < y + 1" using Suc.prems(2) by simp
    show "length (urls @ [tileUrlOf (Fin z) x (Fin y)]) + length [y + 1..ymax] < 2 ^ 32"
      using Suc.prems(3) unfolding split by simp
  qed
  finally show ?case
    unfolding split by simp
qed

lemma length_rows: "length (concat (map (\<lambda>x. map (f x) ys) xs)) = length xs * length ys"
  by (induction xs) simp_all

text \<open>The same for the \<open>x\<close> loop: it ends and has pushed the rows of \<open>x, ..., xmax\<close>.\<close>

lemma xLoop_eq:
  assumes "safe xmax" and "- (2 ^ 53) < x" and "safe ymax" and "- (2 ^ 53) < ymin"
    and "length urls + length [x..xmax] * length [ymin..ymax] < 2 ^ 32"
  shows "xLoop z (Fin x) (Fin xmax) (Fin ymin) (Fin ymax) urls =
     Some (Inr (urls @ concat (map (\<lambda>x. map (\<lambda>y. tileUrlOf (Fin z) (Fin x) (Fin y))
       [ymin..ymax]) [x..xmax])))"
  using assms(2,5)
proof (induction "nat (xmax + 1 - x)" arbitrary: x urls)
  case 0
  then have "\<not> x \<le> xmax" by simp
  then show ?case
    by (subst xLoop.simps) simp
next
  case (Suc n)
  then have le: "x \<le> xmax" by linarith
  have split: "[x..xmax] = x # [x + 1..xmax]"
    using le by (rule upto_rec1)
  have x: "safe x"
    using le assms(1) Suc.prems(1) unfolding safe_def by auto
  have room: "length urls + length [ymin..ymax] < 2 ^ 32"
    using Suc.prems(2) unfolding split by simp
  note row = yLoop_eq [OF assms(3) assms(4) room, of z "Fin x"]
  have "xLoop z (Fin x) (Fin xmax) (Fin ymin) (Fin ymax) urls =
      xLoop z (Fin (x + 1)) (Fin xmax) (Fin ymin) (Fin ymax)
        (urls @ map (\<lambda>y. tileUrlOf (Fin z) (Fin x) (Fin y)) [ymin..ymax])"
    using le by (subst xLoop.simps) (simp add: row js_inc_safe [OF x])
  also have "\<dots> = Some (Inr ((urls @ map (\<lambda>y. tileUrlOf (Fin z) (Fin x) (Fin y)) [ymin..ymax]) @
      concat (map (\<lambda>x. map (\<lambda>y. tileUrlOf (Fin z) (Fin x) (Fin y)) [ymin..ymax])
        [x + 1..xmax])))"
  proof (rule Suc.hyps(1))
    show "n = nat (xmax + 1 - (x + 1))"
      using Suc.hyps(2) by linarith
    show "- (2 ^ 53) < x + 1"
      using Suc.prems(1) by simp
    show "length (urls @ map (\<lambda>y. tileUrlOf (Fin z) (Fin x) (Fin y)) [ymin..ymax]) +
        length [x + 1..xmax] * length [ymin..ymax] < 2 ^ 32"
      using Suc.prems(2) unfolding split by simp
  qed
  finally show ?case
    unfolding split by simp
qed

lemma tileRange_Fin: "tileRange (Fin m) (Fin n) = [min m n..max m n]"
  by (simp add: tileRange_def)

lemma tilesAt_Fin:
  assumes "lngToTileX M (west b) z = Fin wx" and "lngToTileX M (east b) z = Fin ex"
    and "latToTileY M (north b) z = Fin ny" and "latToTileY M (south b) z = Fin sy"
  shows "tilesAt M b z =
     concat (map (\<lambda>x. map (\<lambda>y. (z, x, y)) [min ny sy..max ny sy]) [min wx ex..max wx ex])"
  by (simp add: tilesAt_def assms tileRange_Fin)

lemma safeCorners_Fin:
  assumes "safeCorners M b z"
  obtains wx ex ny sy where "lngToTileX M (west b) z = Fin wx" and "safe wx"
    and "lngToTileX M (east b) z = Fin ex" and "safe ex"
    and "latToTileY M (north b) z = Fin ny" and "safe ny"
    and "latToTileY M (south b) z = Fin sy" and "safe sy"
proof -
  obtain wx where 1: "lngToTileX M (west b) z = Fin wx" "safe wx"
    using assms safeTile_Fin unfolding safeCorners_def by blast
  obtain ex where 2: "lngToTileX M (east b) z = Fin ex" "safe ex"
    using assms safeTile_Fin unfolding safeCorners_def by blast
  obtain ny where 3: "latToTileY M (north b) z = Fin ny" "safe ny"
    using assms safeTile_Fin unfolding safeCorners_def by blast
  obtain sy where 4: "latToTileY M (south b) z = Fin sy" "safe sy"
    using assms safeTile_Fin unfolding safeCorners_def by blast
  show thesis
    using that 1 2 3 4 by blast
qed

lemma safe_between: "safe lo \<Longrightarrow> safe hi \<Longrightarrow> n \<in> set [lo..hi] \<Longrightarrow> safe n"
  unfolding safe_def by auto

lemma xLoop_corners:
  assumes z: "safe z" and c: "safeCorners M b z"
    and room: "length urls + length (tilesAt M b z) < 2 ^ 32"
  shows "xLoop z (Math_min (lngToTileX M (west b) z) (lngToTileX M (east b) z))
       (Math_max (lngToTileX M (west b) z) (lngToTileX M (east b) z))
       (Math_min (latToTileY M (north b) z) (latToTileY M (south b) z))
       (Math_max (latToTileY M (north b) z) (latToTileY M (south b) z)) urls =
     Some (Inr (urls @ map (\<lambda>(z, x, y). tileUrl z x y) (tilesAt M b z)))"
proof -
  obtain wx ex ny sy where wx: "lngToTileX M (west b) z = Fin wx" and swx: "safe wx"
    and ex: "lngToTileX M (east b) z = Fin ex" and sex: "safe ex"
    and ny: "latToTileY M (north b) z = Fin ny" and sny: "safe ny"
    and sy: "latToTileY M (south b) z = Fin sy" and ssy: "safe sy"
    using c by (rule safeCorners_Fin)
  note t = tilesAt_Fin [OF wx ex ny sy]
  have len: "length (tilesAt M b z) =
      length [min wx ex..max wx ex] * length [min ny sy..max ny sy]"
    unfolding t by (rule length_rows)
  have row: "map (\<lambda>y. tileUrlOf (Fin z) (Fin x) (Fin y)) [min ny sy..max ny sy] =
      map (\<lambda>y. tileUrl z x y) [min ny sy..max ny sy]"
    if "x \<in> set [min wx ex..max wx ex]" for x
  proof (rule map_cong [OF refl])
    fix y
    assume "y \<in> set [min ny sy..max ny sy]"
    then have "safe y"
      by (rule safe_between [OF safe_min [OF sny ssy] safe_max [OF sny ssy]])
    moreover have "safe x"
      using that by (rule safe_between [OF safe_min [OF swx sex] safe_max [OF swx sex]])
    ultimately show "tileUrlOf (Fin z) (Fin x) (Fin y) = tileUrl z x y"
      using z by (simp add: tileUrlOf_safe)
  qed
  have "concat (map (\<lambda>x. map (\<lambda>y. tileUrlOf (Fin z) (Fin x) (Fin y)) [min ny sy..max ny sy])
        [min wx ex..max wx ex]) =
      concat (map (\<lambda>x. map (\<lambda>y. tileUrl z x y) [min ny sy..max ny sy]) [min wx ex..max wx ex])"
    by (rule arg_cong [where f = concat], rule map_cong [OF refl], rule row)
  also have "\<dots> = map (\<lambda>(z, x, y). tileUrl z x y) (tilesAt M b z)"
    unfolding t by (simp add: map_concat comp_def)
  finally have urls: "concat (map (\<lambda>x. map (\<lambda>y. tileUrlOf (Fin z) (Fin x) (Fin y))
        [min ny sy..max ny sy]) [min wx ex..max wx ex]) =
      map (\<lambda>(z, x, y). tileUrl z x y) (tilesAt M b z)" .
  have lo_x: "- (2 ^ 53) < min wx ex"
    using safe_min [OF swx sex] unfolding safe_def by simp
  have lo_y: "- (2 ^ 53) < min ny sy"
    using safe_min [OF sny ssy] unfolding safe_def by simp
  have "xLoop z (Fin (min wx ex)) (Fin (max wx ex)) (Fin (min ny sy)) (Fin (max ny sy)) urls =
      Some (Inr (urls @ concat (map (\<lambda>x. map (\<lambda>y. tileUrlOf (Fin z) (Fin x) (Fin y))
        [min ny sy..max ny sy]) [min wx ex..max wx ex])))"
    using room unfolding len
    by (intro xLoop_eq safe_max [OF swx sex] safe_max [OF sny ssy] lo_x lo_y)
  then show ?thesis
    unfolding wx ex ny sy Math_min_Fin Math_max_Fin urls .
qed

text \<open>
  When every zoom of the range and the corner tiles of every zoom are below \<open>2^53\<close> and the
  array can hold the tiles, the \<open>z\<close> loop ends and has pushed the URLs of the
  specification's list.
\<close>

lemma zLoop_eq:
  assumes "\<forall>z'. z \<le> z' \<and> z' \<le> maxZoom \<longrightarrow> safe z' \<and> safeCorners M b z'"
    and "length urls + length (tilesInBoundingBox M b [z..maxZoom]) < 2 ^ 32"
  shows "zLoop M b z maxZoom urls =
     Some (Inr (urls @ map (\<lambda>(z, x, y). tileUrl z x y) (tilesInBoundingBox M b [z..maxZoom])))"
  using assms
proof (induction "nat (maxZoom + 1 - z)" arbitrary: z urls)
  case 0
  then have "\<not> z \<le> maxZoom" by simp
  then show ?case
    by (subst zLoop.simps) (simp add: tilesInBoundingBox_def)
next
  case (Suc n)
  then have le: "z \<le> maxZoom" by linarith
  have split: "[z..maxZoom] = z # [z + 1..maxZoom]"
    using le by (rule upto_rec1)
  have box: "tilesInBoundingBox M b [z..maxZoom] =
      tilesAt M b z @ tilesInBoundingBox M b [z + 1..maxZoom]"
    unfolding split tilesInBoundingBox_def by simp
  have z: "safe z" and c: "safeCorners M b z"
    using Suc.prems(1) le by auto
  have room: "length urls + length (tilesAt M b z) < 2 ^ 32"
    using Suc.prems(2) unfolding box by simp
  have "zLoop M b z maxZoom urls =
      zLoop M b (z + 1) maxZoom (urls @ map (\<lambda>(z, x, y). tileUrl z x y) (tilesAt M b z))"
    using le
    by (subst zLoop.simps)
      (simp add: latLngToTile_Inr xLoop_corners [OF z c room] roundWhole_succ [OF z])
  also have "\<dots> = Some (Inr ((urls @ map (\<lambda>(z, x, y). tileUrl z x y) (tilesAt M b z)) @
      map (\<lambda>(z, x, y). tileUrl z x y) (tilesInBoundingBox M b [z + 1..maxZoom])))"
  proof (rule Suc.hyps(1))
    show "n = nat (maxZoom + 1 - (z + 1))"
      using Suc.hyps(2) by linarith
    show "\<forall>z'. z + 1 \<le> z' \<and> z' \<le> maxZoom \<longrightarrow> safe z' \<and> safeCorners M b z'"
      using Suc.prems(1) by auto
    show "length (urls @ map (\<lambda>(z, x, y). tileUrl z x y) (tilesAt M b z)) +
        length (tilesInBoundingBox M b [z + 1..maxZoom]) < 2 ^ 32"
      using Suc.prems(2) unfolding box by simp
  qed
  finally show ?case
    unfolding box by simp
qed

text \<open>
  A \<open>y\<close> loop whose variable \<^verbatim>\<open>y++\<close> leaves as it is pushes until the array is full.
\<close>

lemma yLoop_stuck:
  assumes "js_le y ymax" and "js_inc y = y"
  shows "yLoop z x y ymax urls = Some (Inl RangeError)"
proof (induction "2 ^ 32 - 1 - length urls" arbitrary: urls)
  case 0
  then have "\<not> length urls < 2 ^ 32 - 1" by simp
  then show ?case
    using assms(1) by (subst yLoop.simps) simp
next
  case (Suc n)
  then have room: "length urls < 2 ^ 32 - 1" by simp
  have "n = 2 ^ 32 - 1 - length (urls @ [tileUrlOf (Fin z) x y])"
    using Suc.hyps(2) by simp
  then have "yLoop z x y ymax (urls @ [tileUrlOf (Fin z) x y]) = Some (Inl RangeError)"
    by (rule Suc.hyps(1))
  then show ?case
    using assms room by (subst yLoop.simps) simp
qed

lemma xLoop_stuck:
  assumes "js_le x xmax" and "js_le ymin ymax" and "js_inc ymin = ymin"
  shows "xLoop z x xmax ymin ymax urls = Some (Inl RangeError)"
  using assms(1) by (subst xLoop.simps) (simp add: yLoop_stuck [OF assms(2,3)])

text \<open>
  What holds of every run of the loops that ends: induction over the calls.
\<close>

lemma yLoop_induct:
  assumes "yLoop z x y ymax urls = Some r"
    and "\<And>f z x y ymax urls r.
      (\<And>z x y ymax urls r. f z x y ymax urls = Some r \<Longrightarrow> P z x y ymax urls r) \<Longrightarrow>
      (if js_le y ymax then
        (if length urls < 2 ^ 32 - 1
         then f z x (js_inc y) ymax (urls @ [tileUrlOf (Fin z) x y])
         else Some (Inl RangeError))
       else Some (Inr urls)) = Some r \<Longrightarrow> P z x y ymax urls r"
  shows "P z x y ymax urls r"
  using assms(1)
  by (rule yLoop.raw_induct [rotated, where xa = "((((z, x), y), ymax), urls)" and P = P,
        unfolded prod.case]) (rule assms(2))

lemma xLoop_induct:
  assumes "xLoop z x xmax ymin ymax urls = Some r"
    and "\<And>f z x xmax ymin ymax urls r.
      (\<And>z x xmax ymin ymax urls r.
          f z x xmax ymin ymax urls = Some r \<Longrightarrow> P z x xmax ymin ymax urls r) \<Longrightarrow>
      (if js_le x xmax then
        (case yLoop z x ymin ymax urls of
           None \<Rightarrow> None
         | Some (Inl e) \<Rightarrow> Some (Inl e)
         | Some (Inr urls') \<Rightarrow> f z (js_inc x) xmax ymin ymax urls')
       else Some (Inr urls)) = Some r \<Longrightarrow> P z x xmax ymin ymax urls r"
  shows "P z x xmax ymin ymax urls r"
  using assms(1)
  by (rule xLoop.raw_induct [rotated,
        where xa = "(((((z, x), xmax), ymin), ymax), urls)" and P = P, unfolded prod.case])
    (rule assms(2))

lemma zLoop_induct:
  assumes "zLoop M b z maxZoom urls = Some r"
    and "\<And>f M b z maxZoom urls r.
      (\<And>M b z maxZoom urls r. f M b z maxZoom urls = Some r \<Longrightarrow> P M b z maxZoom urls r) \<Longrightarrow>
      (if z \<le> maxZoom then
        (case latLngToTile M (north b) (west b) z of
           Inl e \<Rightarrow> Some (Inl e)
         | Inr nwTile \<Rightarrow>
             (case latLngToTile M (south b) (east b) z of
                Inl e \<Rightarrow> Some (Inl e)
              | Inr seTile \<Rightarrow>
                  (case xLoop z (Math_min (tileX nwTile) (tileX seTile))
                          (Math_max (tileX nwTile) (tileX seTile))
                          (Math_min (tileY nwTile) (tileY seTile))
                          (Math_max (tileY nwTile) (tileY seTile)) urls of
                     None \<Rightarrow> None
                   | Some (Inl e) \<Rightarrow> Some (Inl e)
                   | Some (Inr urls') \<Rightarrow> f M b (roundWhole (z + 1)) maxZoom urls')))
       else Some (Inr urls)) = Some r \<Longrightarrow> P M b z maxZoom urls r"
  shows "P M b z maxZoom urls r"
  using assms(1)
  by (rule zLoop.raw_induct [rotated, where P = P]) (rule assms(2))

text \<open>
  A run that ends has thrown nothing but \<open>RangeError\<close>, or has appended URLs of the inner
  loop to the array.
\<close>

lemma yLoop_sound:
  assumes "yLoop z x y ymax urls = Some r"
  shows "case r of Inl e \<Rightarrow> e = RangeError
     | Inr res \<Rightarrow> \<exists>ys. res = urls @ map (\<lambda>y. tileUrlOf (Fin z) x y) ys"
proof (rule yLoop_induct [where P = "\<lambda>z x y ymax urls r. case r of Inl e \<Rightarrow> e = RangeError
     | Inr res \<Rightarrow> \<exists>ys. res = urls @ map (\<lambda>y. tileUrlOf (Fin z) x y) ys", OF assms])
  fix f z x y ymax urls and r :: "error + string list"
  assume ih: "\<And>z x y ymax urls r. f z x y ymax urls = Some r \<Longrightarrow>
      (case r of Inl e \<Rightarrow> e = RangeError
       | Inr res \<Rightarrow> \<exists>ys. res = urls @ map (\<lambda>y. tileUrlOf (Fin z) x y) ys)"
    and body: "(if js_le y ymax then
        (if length urls < 2 ^ 32 - 1
         then f z x (js_inc y) ymax (urls @ [tileUrlOf (Fin z) x y])
         else Some (Inl RangeError))
       else Some (Inr urls)) = Some r"
  show "case r of Inl e \<Rightarrow> e = RangeError
     | Inr res \<Rightarrow> \<exists>ys. res = urls @ map (\<lambda>y. tileUrlOf (Fin z) x y) ys"
  proof (cases "js_le y ymax")
    case False
    then have "r = Inr urls" using body by simp
    then show ?thesis by simp
  next
    case True
    show ?thesis
    proof (cases "length urls < 2 ^ 32 - 1")
      case False
      then have "r = Inl RangeError" using body True by simp
      then show ?thesis by simp
    next
      case room: True
      then have "f z x (js_inc y) ymax (urls @ [tileUrlOf (Fin z) x y]) = Some r"
        using body True by simp
      note more = ih [OF this]
      show ?thesis
      proof (cases r)
        case (Inl e)
        then show ?thesis using more by simp
      next
        case (Inr res)
        then obtain ys where "res = (urls @ [tileUrlOf (Fin z) x y]) @
            map (\<lambda>y. tileUrlOf (Fin z) x y) ys"
          using more by auto
        then have "res = urls @ map (\<lambda>y. tileUrlOf (Fin z) x y) (y # ys)"
          by simp
        then show ?thesis unfolding Inr by (simp only: sum.case) blast
      qed
    qed
  qed
qed

lemma xLoop_sound:
  assumes "xLoop z x xmax ymin ymax urls = Some r"
  shows "case r of Inl e \<Rightarrow> e = RangeError
     | Inr res \<Rightarrow> \<exists>ps. res = urls @ map (\<lambda>(x, y). tileUrlOf (Fin z) x y) ps"
proof (rule xLoop_induct [where P = "\<lambda>z x xmax ymin ymax urls r. case r of
       Inl e \<Rightarrow> e = RangeError
     | Inr res \<Rightarrow> \<exists>ps. res = urls @ map (\<lambda>(x, y). tileUrlOf (Fin z) x y) ps", OF assms])
  fix f z x xmax ymin ymax urls and r :: "error + string list"
  assume ih: "\<And>z x xmax ymin ymax urls r. f z x xmax ymin ymax urls = Some r \<Longrightarrow>
      (case r of Inl e \<Rightarrow> e = RangeError
       | Inr res \<Rightarrow> \<exists>ps. res = urls @ map (\<lambda>(x, y). tileUrlOf (Fin z) x y) ps)"
    and body: "(if js_le x xmax then
        (case yLoop z x ymin ymax urls of
           None \<Rightarrow> None
         | Some (Inl e) \<Rightarrow> Some (Inl e)
         | Some (Inr urls') \<Rightarrow> f z (js_inc x) xmax ymin ymax urls')
       else Some (Inr urls)) = Some r"
  show "case r of Inl e \<Rightarrow> e = RangeError
     | Inr res \<Rightarrow> \<exists>ps. res = urls @ map (\<lambda>(x, y). tileUrlOf (Fin z) x y) ps"
  proof (cases "js_le x xmax")
    case False
    then have "r = Inr urls" using body by simp
    then show ?thesis by simp
  next
    case True
    then obtain s where row: "yLoop z x ymin ymax urls = Some s"
      using body by (cases "yLoop z x ymin ymax urls") simp_all
    note inner = yLoop_sound [OF row]
    show ?thesis
    proof (cases s)
      case (Inl e)
      then have "e = RangeError"
        using inner by simp
      moreover have "r = Inl e"
        using body True row Inl by simp
      ultimately show ?thesis by simp
    next
      case (Inr urls')
      then obtain ys where urls': "urls' = urls @ map (\<lambda>y. tileUrlOf (Fin z) x y) ys"
        using inner by auto
      have "f z (js_inc x) xmax ymin ymax urls' = Some r"
        using body True row Inr by simp
      note more = ih [OF this]
      show ?thesis
      proof (cases r)
        case (Inl e)
        then show ?thesis using more by simp
      next
        case res: (Inr res)
        then obtain ps where "res = urls' @ map (\<lambda>(x, y). tileUrlOf (Fin z) x y) ps"
          using more by auto
        then have "res = urls @ map (\<lambda>(x, y). tileUrlOf (Fin z) x y) (map (Pair x) ys @ ps)"
          unfolding urls' by (simp add: comp_def)
        then show ?thesis unfolding res by (simp only: sum.case) blast
      qed
    qed
  qed
qed

text \<open>
  An \<open>x\<close> loop that stays at infinity over rows that push nothing does not return.
\<close>

lemma xLoop_hangs: "xLoop z PosInf PosInf NaN ymax urls = None"
proof (cases "xLoop z PosInf PosInf NaN ymax urls")
  case None
  then show ?thesis .
next
  case (Some r)
  have "\<not> (x = PosInf \<and> xmax = PosInf \<and> ymin = NaN)"
    if run: "xLoop z x xmax ymin ymax urls = Some r" for z x xmax ymin ymax urls r
  proof (rule xLoop_induct [where P = "\<lambda>z x xmax ymin ymax urls r.
      \<not> (x = PosInf \<and> xmax = PosInf \<and> ymin = NaN)", OF run])
    fix f z x xmax ymin ymax urls and r :: "error + string list"
    assume ih: "\<And>z x xmax ymin ymax urls r. f z x xmax ymin ymax urls = Some r \<Longrightarrow>
        \<not> (x = PosInf \<and> xmax = PosInf \<and> ymin = NaN)"
      and body: "(if js_le x xmax then
          (case yLoop z x ymin ymax urls of
             None \<Rightarrow> None
           | Some (Inl e) \<Rightarrow> Some (Inl e)
           | Some (Inr urls') \<Rightarrow> f z (js_inc x) xmax ymin ymax urls')
         else Some (Inr urls)) = Some r"
    show "\<not> (x = PosInf \<and> xmax = PosInf \<and> ymin = NaN)"
    proof
      assume stay: "x = PosInf \<and> xmax = PosInf \<and> ymin = NaN"
      have row: "yLoop z PosInf NaN ymax urls = Some (Inr urls)"
        by (subst yLoop.simps) simp
      have "f z PosInf PosInf NaN ymax urls = Some r"
        using body stay by (simp add: row js_inc_def)
      then show False
        using ih by blast
    qed
  qed
  then show ?thesis
    using Some by blast
qed

lemma zLoop_sound:
  assumes "zLoop M b z maxZoom urls = Some r"
  shows "case r of Inl e \<Rightarrow> e = RangeError
     | Inr res \<Rightarrow> \<exists>ts. res = urls @ map (\<lambda>(z, x, y). tileUrlOf (Fin z) x y) ts"
proof (rule zLoop_induct [where P = "\<lambda>M b z maxZoom urls r. case r of
       Inl e \<Rightarrow> e = RangeError
     | Inr res \<Rightarrow> \<exists>ts. res = urls @ map (\<lambda>(z, x, y). tileUrlOf (Fin z) x y) ts", OF assms])
  fix f and M :: "('a, jsnum) Math" and b :: "'a bounds" and z maxZoom urls
    and r :: "error + string list"
  assume ih: "\<And>(M :: ('a, jsnum) Math) b z maxZoom urls r. f M b z maxZoom urls = Some r \<Longrightarrow>
      (case r of Inl e \<Rightarrow> e = RangeError
       | Inr res \<Rightarrow> \<exists>ts. res = urls @ map (\<lambda>(z, x, y). tileUrlOf (Fin z) x y) ts)"
    and body: "(if z \<le> maxZoom then
        (case latLngToTile M (north b) (west b) z of
           Inl e \<Rightarrow> Some (Inl e)
         | Inr nwTile \<Rightarrow>
             (case latLngToTile M (south b) (east b) z of
                Inl e \<Rightarrow> Some (Inl e)
              | Inr seTile \<Rightarrow>
                  (case xLoop z (Math_min (tileX nwTile) (tileX seTile))
                          (Math_max (tileX nwTile) (tileX seTile))
                          (Math_min (tileY nwTile) (tileY seTile))
                          (Math_max (tileY nwTile) (tileY seTile)) urls of
                     None \<Rightarrow> None
                   | Some (Inl e) \<Rightarrow> Some (Inl e)
                   | Some (Inr urls') \<Rightarrow> f M b (roundWhole (z + 1)) maxZoom urls')))
       else Some (Inr urls)) = Some r"
  show "case r of Inl e \<Rightarrow> e = RangeError
     | Inr res \<Rightarrow> \<exists>ts. res = urls @ map (\<lambda>(z, x, y). tileUrlOf (Fin z) x y) ts"
  proof (cases "z \<le> maxZoom")
    case False
    then have "r = Inr urls" using body by simp
    then show ?thesis by simp
  next
    case True
    let ?rows = "xLoop z (Math_min (lngToTileX M (west b) z) (lngToTileX M (east b) z))
       (Math_max (lngToTileX M (west b) z) (lngToTileX M (east b) z))
       (Math_min (latToTileY M (north b) z) (latToTileY M (south b) z))
       (Math_max (latToTileY M (north b) z) (latToTileY M (south b) z)) urls"
    have body': "(case ?rows of
          None \<Rightarrow> None
        | Some (Inl e) \<Rightarrow> Some (Inl e)
        | Some (Inr urls') \<Rightarrow> f M b (roundWhole (z + 1)) maxZoom urls') = Some r"
      using body True by (simp add: latLngToTile_Inr)
    then obtain s where rows: "?rows = Some s"
      by (cases ?rows) simp_all
    note inner = xLoop_sound [OF rows]
    show ?thesis
    proof (cases s)
      case (Inl e)
      then have "e = RangeError"
        using inner by simp
      moreover have "r = Inl e"
        using body' rows Inl by simp
      ultimately show ?thesis by simp
    next
      case (Inr urls')
      then obtain ps where urls': "urls' = urls @ map (\<lambda>(x, y). tileUrlOf (Fin z) x y) ps"
        using inner by auto
      have "f M b (roundWhole (z + 1)) maxZoom urls' = Some r"
        using body' rows Inr by simp
      note more = ih [OF this]
      show ?thesis
      proof (cases r)
        case (Inl e)
        then show ?thesis using more by simp
      next
        case res: (Inr res)
        then obtain ts where "res = urls' @ map (\<lambda>(z, x, y). tileUrlOf (Fin z) x y) ts"
          using more by auto
        then have "res = urls @ map (\<lambda>(z, x, y). tileUrlOf (Fin z) x y) (map (Pair z) ps @ ts)"
          unfolding urls' by (simp add: comp_def split_beta)
        then show ?thesis unfolding res by (simp only: sum.case) blast
      qed
    qed
  qed
qed

lemma zoomLevelsLoop_sound:
  assumes "zoomLevelsLoop M b zoomLevels urls = Some r"
  shows "case r of Inl e \<Rightarrow> e = RangeError
     | Inr res \<Rightarrow> \<exists>ts. res = urls @ map (\<lambda>(z, x, y). tileUrlOf (Fin z) x y) ts"
  using assms
proof (induction zoomLevels arbitrary: urls)
  case Nil
  then have "r = Inr urls" by simp
  then show ?case by simp
next
  case (Cons z zoomLevels)
  let ?rows = "xLoop z (Math_min (lngToTileX M (west b) z) (lngToTileX M (east b) z))
     (Math_max (lngToTileX M (west b) z) (lngToTileX M (east b) z))
     (Math_min (latToTileY M (north b) z) (latToTileY M (south b) z))
     (Math_max (latToTileY M (north b) z) (latToTileY M (south b) z)) urls"
  have body: "(case ?rows of
        None \<Rightarrow> None
      | Some (Inl e) \<Rightarrow> Some (Inl e)
      | Some (Inr urls') \<Rightarrow> zoomLevelsLoop M b zoomLevels urls') = Some r"
    using Cons.prems by (simp add: sw_latLngToTile_Inr)
  then obtain s where rows: "?rows = Some s"
    by (cases ?rows) simp_all
  note inner = xLoop_sound [OF rows]
  show ?case
  proof (cases s)
    case (Inl e)
    then have "e = RangeError"
      using inner by simp
    moreover have "r = Inl e"
      using body rows Inl by simp
    ultimately show ?thesis by simp
  next
    case (Inr urls')
    then obtain ps where urls': "urls' = urls @ map (\<lambda>(x, y). tileUrlOf (Fin z) x y) ps"
      using inner by auto
    have "zoomLevelsLoop M b zoomLevels urls' = Some r"
      using body rows Inr by simp
    note more = Cons.IH [OF this]
    show ?thesis
    proof (cases r)
      case (Inl e)
      then show ?thesis using more by simp
    next
      case res: (Inr res)
      then obtain ts where "res = urls' @ map (\<lambda>(z, x, y). tileUrlOf (Fin z) x y) ts"
        using more by auto
      then have "res = urls @ map (\<lambda>(z, x, y). tileUrlOf (Fin z) x y) (map (Pair z) ps @ ts)"
        unfolding urls' by (simp add: comp_def split_beta)
      then show ?thesis unfolding res by (simp only: sum.case) blast
    qed
  qed
qed

lemma generateTileUrls_eq:
  assumes "\<forall>z. minZoom \<le> z \<and> z \<le> maxZoom \<longrightarrow> safe z \<and> safeCorners M b z"
    and "length (tilesInBoundingBox M b [minZoom..maxZoom]) < 2 ^ 32"
  shows "generateTileUrls M b minZoom maxZoom =
     Some (Inr (map (\<lambda>(z, x, y). tileUrl z x y) (tilesInBoundingBox M b [minZoom..maxZoom])))"
  unfolding generateTileUrls_def using zLoop_eq [OF assms(1), of "[]"] assms(2) by simp

lemma generateTileUrls_sound:
  assumes "generateTileUrls M b minZoom maxZoom = Some r"
  shows "case r of Inl e \<Rightarrow> e = RangeError
     | Inr res \<Rightarrow> \<exists>ts. res = map (\<lambda>(z, x, y). tileUrlOf (Fin z) x y) ts"
  using zLoop_sound [OF assms [unfolded generateTileUrls_def]] by (cases r) simp_all

section \<open>Order and extent of the enumeration\<close>

lemma sorted_wrt_concat_map:
  assumes "sorted_wrt (<) (ks :: int list)"
    and "\<And>k. sorted_wrt P (f k)"
    and "\<And>i j a b. i < j \<Longrightarrow> a \<in> set (f i) \<Longrightarrow> b \<in> set (f j) \<Longrightarrow> P a b"
  shows "sorted_wrt P (concat (map f ks))"
  using assms(1)
proof (induction ks)
  case Nil
  show ?case by simp
next
  case (Cons k ks)
  then show ?case
    using assms(2) [of k] assms(3) [of k]
    by (auto simp: sorted_wrt_append)
qed

lemma sorted_tileRange: "sorted_wrt (<) (tileRange a b)"
  by (cases a; cases b) (simp_all add: tileRange_def)

lemma tilesAt_zoom: "t \<in> set (tilesAt M b z) \<Longrightarrow> fst t = z"
  by (auto simp: tilesAt_def)

lemma sorted_tilesAt: "sorted_wrt tileBefore (tilesAt M b z)"
  unfolding tilesAt_def
proof (rule sorted_wrt_concat_map)
  show "sorted_wrt (<) (tileRange (lngToTileX M (west b) z) (lngToTileX M (east b) z))"
    by (rule sorted_tileRange)
next
  fix k
  have "sorted_wrt (\<lambda>y y'. tileBefore (z, k, y) (z, k, y')) ys" if "sorted_wrt (<) ys" for ys
    using that by (rule sorted_wrt_mono_rel [rotated]) (simp add: tileBefore_def)
  then show "sorted_wrt tileBefore (map (\<lambda>y. (z, k, y))
      (tileRange (latToTileY M (north b) z) (latToTileY M (south b) z)))"
    by (simp add: sorted_wrt_map sorted_tileRange)
next
  fix i j :: int and s t
  assume "i < j"
    and "s \<in> set (map (\<lambda>y. (z, i, y))
      (tileRange (latToTileY M (north b) z) (latToTileY M (south b) z)))"
    and "t \<in> set (map (\<lambda>y. (z, j, y))
      (tileRange (latToTileY M (north b) z) (latToTileY M (south b) z)))"
  then show "tileBefore s t"
    by (auto simp: tileBefore_def)
qed

lemma sorted_tiles: "sorted_wrt tileBefore (tilesInBoundingBox M b [z1..z2])"
  unfolding tilesInBoundingBox_def
proof (rule sorted_wrt_concat_map)
  show "sorted_wrt (<) [z1..z2]" by simp
  show "sorted_wrt tileBefore (tilesAt M b k)" for k by (rule sorted_tilesAt)
  show "tileBefore s t" if "i < j" "s \<in> set (tilesAt M b i)" "t \<in> set (tilesAt M b j)" for i j s t
    using that tilesAt_zoom [of s M b i] tilesAt_zoom [of t M b j]
    by (cases s, cases t) (simp add: tileBefore_def)
qed

lemma set_tilesAt:
  assumes "safeCorners M b z"
  shows "set (tilesAt M b z) =
     {(z', x, y). z' = z
        \<and> js_le (Math_min (lngToTileX M (west b) z) (lngToTileX M (east b) z)) (Fin x)
        \<and> js_le (Fin x) (Math_max (lngToTileX M (west b) z) (lngToTileX M (east b) z))
        \<and> js_le (Math_min (latToTileY M (north b) z) (latToTileY M (south b) z)) (Fin y)
        \<and> js_le (Fin y) (Math_max (latToTileY M (north b) z) (latToTileY M (south b) z))}"
proof -
  obtain wx ex ny sy where c: "lngToTileX M (west b) z = Fin wx"
    "lngToTileX M (east b) z = Fin ex" "latToTileY M (north b) z = Fin ny"
    "latToTileY M (south b) z = Fin sy"
    using assms by (rule safeCorners_Fin)
  show ?thesis
    unfolding tilesAt_Fin [OF c] c Math_min_Fin Math_max_Fin by auto
qed

lemma set_tiles:
  assumes "\<forall>z. z1 \<le> z \<and> z \<le> z2 \<longrightarrow> safeCorners M b z"
  shows "set (tilesInBoundingBox M b [z1..z2]) =
     {(z, x, y). z1 \<le> z \<and> z \<le> z2
        \<and> js_le (Math_min (lngToTileX M (west b) z) (lngToTileX M (east b) z)) (Fin x)
        \<and> js_le (Fin x) (Math_max (lngToTileX M (west b) z) (lngToTileX M (east b) z))
        \<and> js_le (Math_min (latToTileY M (north b) z) (latToTileY M (south b) z)) (Fin y)
        \<and> js_le (Fin y) (Math_max (latToTileY M (north b) z) (latToTileY M (south b) z))}"
proof -
  have "set (tilesInBoundingBox M b [z1..z2]) = (\<Union>z\<in>{z1..z2}. set (tilesAt M b z))"
    by (simp add: tilesInBoundingBox_def)
  also have "\<dots> = (\<Union>z\<in>{z1..z2}. {(z', x, y). z' = z
        \<and> js_le (Math_min (lngToTileX M (west b) z) (lngToTileX M (east b) z)) (Fin x)
        \<and> js_le (Fin x) (Math_max (lngToTileX M (west b) z) (lngToTileX M (east b) z))
        \<and> js_le (Math_min (latToTileY M (north b) z) (latToTileY M (south b) z)) (Fin y)
        \<and> js_le (Fin y) (Math_max (latToTileY M (north b) z) (latToTileY M (south b) z))})"
    using assms by (intro SUP_cong refl set_tilesAt) simp
  also have "\<dots> = {(z, x, y). z1 \<le> z \<and> z \<le> z2
        \<and> js_le (Math_min (lngToTileX M (west b) z) (lngToTileX M (east b) z)) (Fin x)
        \<and> js_le (Fin x) (Math_max (lngToTileX M (west b) z) (lngToTileX M (east b) z))
        \<and> js_le (Math_min (latToTileY M (north b) z) (latToTileY M (south b) z)) (Fin y)
        \<and> js_le (Fin y) (Math_max (latToTileY M (north b) z) (latToTileY M (south b) z))}"
    by auto
  finally show ?thesis .
qed

lemma distinct_of_sorted: "sorted_wrt tileBefore ts \<Longrightarrow> distinct ts"
proof (induction ts)
  case Nil
  show ?case by simp
next
  case (Cons t ts)
  have "\<not> tileBefore t t" by (cases t) (simp add: tileBefore_def)
  then show ?case using Cons by auto
qed

lemma distinct_urls: "distinct ts \<Longrightarrow> distinct (map (\<lambda>(z, x, y). tileUrl z x y) ts)"
proof (rule iffD2 [OF distinct_map], rule conjI)
  show "inj_on (\<lambda>(z, x, y). tileUrl z x y) (set ts)"
    by (rule inj_onI) (auto simp: tileUrl_zyx dest: zyxUrl_inject)
qed

lemma length_tilesAt:
  assumes "lngToTileX M (west b) z = Fin wx" and "lngToTileX M (east b) z = Fin ex"
    and "latToTileY M (north b) z = Fin ny" and "latToTileY M (south b) z = Fin sy"
  shows "int (length (tilesAt M b z)) = (\<bar>ex - wx\<bar> + 1) * (\<bar>sy - ny\<bar> + 1)"
proof -
  have span: "int (nat (max a c - min a c + 1)) = \<bar>c - a\<bar> + 1" for a c :: int
    by (simp add: max_def min_def)
  show ?thesis
    unfolding tilesAt_Fin [OF assms] length_rows length_upto of_nat_mult span
    by (simp add: abs_minus_commute)
qed

section \<open>The count\<close>

lemma countLoop_done:
  "\<not> z \<le> maxZoom \<Longrightarrow> countLoop M b z maxZoom count = Some (Inr count)"
  by (subst countLoop.simps) simp

text \<open>
  One round of the count, for corners that are whole numbers and a product below \<open>2^32\<close>:
  every operation is exact.
\<close>

lemma countLoop_single:
  assumes z: "safe z"
    and c: "lngToTileX M (west b) z = Fin wx" "lngToTileX M (east b) z = Fin ex"
      "latToTileY M (north b) z = Fin ny" "latToTileY M (south b) z = Fin sy"
    and small: "(\<bar>ex - wx\<bar> + 1) * (\<bar>sy - ny\<bar> + 1) < 2 ^ 32"
  shows "countLoop M b z z (Fin 0) = Some (Inr (Fin ((\<bar>ex - wx\<bar> + 1) * (\<bar>sy - ny\<bar> + 1))))"
proof -
  let ?w = "\<bar>ex - wx\<bar> + 1" and ?h = "\<bar>sy - ny\<bar> + 1"
  have pos: "1 \<le> ?w" "1 \<le> ?h" by simp_all
  have "?w \<le> ?w * ?h"
    using mult_left_mono [of 1 ?h ?w] by simp
  then have w: "?w < 2 ^ 32" using small by linarith
  have "?h \<le> ?w * ?h"
    using mult_right_mono [of 1 ?w ?h] by simp
  then have h: "?h < 2 ^ 32" using small by linarith
  have big: "(2::int) ^ 32 \<le> 2 ^ 53"
    by (rule power_increasing) simp_all
  have dx: "roundDouble (ex - wx) = Fin (ex - wx)"
    using w big by (intro roundDouble_exact) linarith
  have dy: "roundDouble (sy - ny) = Fin (sy - ny)"
    using h big by (intro roundDouble_exact) linarith
  have wd: "roundDouble ?w = Fin ?w"
    using w big by (intro roundDouble_exact) linarith
  have hd: "roundDouble ?h = Fin ?h"
    using h big by (intro roundDouble_exact) linarith
  have "0 \<le> ?w * ?h" by simp
  then have pd: "roundDouble (?w * ?h) = Fin (?w * ?h)"
    using small big by (intro roundDouble_exact) linarith
  have total: "js_add (Fin 0) (js_mul (Fin ?w) (Fin ?h)) = Fin (?w * ?h)"
    by (simp add: pd)
  have "countLoop M b z z (Fin 0) =
      countLoop M b (roundWhole (z + 1)) z (js_add (Fin 0) (js_mul (Fin ?w) (Fin ?h)))"
    by (subst countLoop.simps) (simp add: latLngToTile_Inr c Let_def dx dy wd hd)
  also have "\<dots> = Some (Inr (Fin (?w * ?h)))"
    unfolding total roundWhole_succ [OF z] by (rule countLoop_done) simp
  finally show ?thesis .
qed

section \<open>Examples at the origin\<close>

lemma lngToTileX_origin:
  "lngToTileX Math_real 0 0 = Fin 0" "lngToTileX Math_real 0 1 = Fin 1"
  "lngToTileX Math_real 0 60 = Fin (2 ^ 59)"
  by (simp_all add: lngToTileX_def Math_real_def)

lemma latToTileY_origin:
  "latToTileY Math_real 0 0 = Fin 0" "latToTileY Math_real 0 1 = Fin 1"
  "latToTileY Math_real 0 60 = Fin (2 ^ 59)"
  by (simp_all add: latToTileY_def Math_real_def)

lemma tilesAt_origin:
  "tilesAt Math_real originBox 0 = [(0, 0, 0)]" "tilesAt Math_real originBox 1 = [(1, 1, 1)]"
  "tilesAt Math_real originBox 60 = [(60, 2 ^ 59, 2 ^ 59)]"
  by (simp_all add: tilesAt_def originBox_def lngToTileX_origin latToTileY_origin tileRange_Fin)

lemma safe_small: "safe 0" "safe 1" "safe 60"
  by (simp_all add: safe_def)

lemma safeCorners_origin:
  "safeCorners Math_real originBox 0" "safeCorners Math_real originBox 1"
  by (simp_all add: safeCorners_def safeTile_def originBox_def lngToTileX_origin
      latToTileY_origin safe_small)

lemma upto_0_1: "[0..1::int] = [0, 1]" "[0..0::int] = [0]" "[60..60::int] = [60]"
  by (simp_all add: upto_rec1)

lemma ToString_0_1: "ToString 0 = ''0''" "ToString 1 = ''1''"
  by (simp_all add: ToString_def digits_small)

lemma origin_range:
  "\<forall>z. 0 \<le> z \<and> z \<le> 1 \<longrightarrow> safe z \<and> safeCorners Math_real originBox z"
proof (intro allI impI)
  fix z :: int
  assume "0 \<le> z \<and> z \<le> 1"
  then have "z = 0 \<or> z = 1" by linarith
  then show "safe z \<and> safeCorners Math_real originBox z"
    using safe_small safeCorners_origin by blast
qed

lemma origin_point:
  "\<forall>z. (0::int) \<le> z \<and> z \<le> 0 \<longrightarrow> safe z \<and> safeCorners Math_real originBox z"
  using origin_range by simp

lemma generateTileUrls_origin:
  "generateTileUrls Math_real originBox 0 1 =
     Some (Inr [tilePrefix @ ''0/0/0'', tilePrefix @ ''1/1/1''])"
  "generateTileUrls Math_real originBox 0 0 = Some (Inr [tilePrefix @ ''0/0/0''])"
proof -
  show "generateTileUrls Math_real originBox 0 1 =
      Some (Inr [tilePrefix @ ''0/0/0'', tilePrefix @ ''1/1/1''])"
    by (subst generateTileUrls_eq [OF origin_range])
      (simp_all add: tilesInBoundingBox_def upto_0_1 tilesAt_origin tileUrl_zyx zyxUrl_def
        ToString_0_1)
  show "generateTileUrls Math_real originBox 0 0 = Some (Inr [tilePrefix @ ''0/0/0''])"
    by (subst generateTileUrls_eq [OF origin_point])
      (simp_all add: tilesInBoundingBox_def upto_0_1 tilesAt_origin tileUrl_zyx zyxUrl_def
        ToString_0_1)
qed

text \<open>At \<open>2^59\<close> the doubles are 128 apart: \<^verbatim>\<open>y++\<close> gives \<open>y\<close> back.\<close>

lemma js_inc_stalls: "js_inc (Fin (2 ^ 59)) = Fin (2 ^ 59)"
proof -
  have "roundWhole (2 ^ 59 + 1) = 2 ^ 59"
    by (simp add: roundWhole_def Let_def ulp_small ulp_large)
  then show ?thesis
    by (simp add: js_inc_def roundDouble_def Let_def)
qed

lemma generateTileUrls_stalls:
  "generateTileUrls Math_real originBox 60 60 = Some (Inl RangeError)"
proof -
  have "xLoop 60 (Fin (2 ^ 59)) (Fin (2 ^ 59)) (Fin (2 ^ 59)) (Fin (2 ^ 59)) [] =
      Some (Inl RangeError)"
    by (rule xLoop_stuck [OF _ _ js_inc_stalls]) simp_all
  then show ?thesis
    unfolding generateTileUrls_def
    by (subst zLoop.simps)
      (simp add: latLngToTile_Inr originBox_def lngToTileX_origin latToTileY_origin)
qed

lemma estimateTileCount_stalls:
  "estimateTileCount Math_real originBox 60 60 = Some (Inr (Fin 1))"
  unfolding estimateTileCount_def
  using countLoop_single [of 60 Math_real originBox "2 ^ 59" "2 ^ 59" "2 ^ 59" "2 ^ 59"]
  by (simp add: safe_small originBox_def lngToTileX_origin latToTileY_origin)

section \<open>Claims about the projection and the enumeration\<close>

text \<open>
  C3, as the source has it. The specification asks \<open>tileFor\<close> to fail with
  \<open>InvalidCoordinate\<close> at latitude +90 and -90. Neither copy of \<^verbatim>\<open>latLngToTile\<close> tests
  its arguments: for every arithmetic, whatever the type of its floored values, every
  latitude, the poles included, every longitude and every zoom, the call returns the tile
  made of the two floored values, and never an error.
\<close>

theorem latLngToTile_never_fails:
  "latLngToTile M lat lng zoom =
     Inr \<lparr>tileX = lngToTileX M lng zoom, tileY = latToTileY M lat zoom\<rparr>
   \<and> sw_latLngToTile M lat lng zoom =
     Inr \<lparr>tileX = lngToTileX M lng zoom, tileY = latToTileY M lat zoom\<rparr>"
  by (simp add: latLngToTile_Inr sw_latLngToTile_Inr)

text \<open>
  C3 as the specification states it fails at latitude 90 and at latitude -90, longitude 0,
  zoom 0: both copies return a tile, whose \<open>x\<close> is 0, and not \<open>InvalidCoordinate\<close>.
\<close>

theorem latLngToTile_pole_counterexample:
  "latLngToTile Math_real 90 0 0 \<noteq> Inl InvalidCoordinate
   \<and> latLngToTile Math_real (- 90) 0 0 \<noteq> Inl InvalidCoordinate
   \<and> sw_latLngToTile Math_real 90 0 0 \<noteq> Inl InvalidCoordinate
   \<and> sw_latLngToTile Math_real (- 90) 0 0 \<noteq> Inl InvalidCoordinate
   \<and> map_sum id tileX (latLngToTile Math_real 90 0 0) = Inr (Fin 0)
   \<and> map_sum id tileX (latLngToTile Math_real (- 90) 0 0) = Inr (Fin 0)"
  by (simp add: latLngToTile_Inr sw_latLngToTile_Inr lngToTileX_origin)

text \<open>
  C6, where the doubles count exactly. For every box and zoom range such that every zoom
  of the range and the four corner coordinates at every zoom of the range are whole
  numbers of a magnitude below \<open>2^53\<close>, and such that the box has fewer than \<open>2^32\<close> tiles
  over the range, \<^verbatim>\<open>generateTileUrls\<close> returns, and returns the URLs of the
  specification's \<open>tilesInBoundingBox\<close> over the zooms \<open>minZoom, ..., maxZoom\<close>, in its
  order. That list is strictly ascending by zoom, then \<open>x\<close>, then \<open>y\<close>; it holds exactly
  the tiles whose zoom is in the range and whose \<open>x\<close> and \<open>y\<close> lie between the minimum
  and the maximum of the two corner tiles of that zoom, bounds included; and no URL is
  emitted twice.
\<close>

theorem generateTileUrls_enumerates_safe_box:
  assumes "\<forall>z. minZoom \<le> z \<and> z \<le> maxZoom \<longrightarrow> safe z \<and> safeCorners M b z"
    and "length (tilesInBoundingBox M b [minZoom..maxZoom]) < 2 ^ 32"
  shows "generateTileUrls M b minZoom maxZoom =
     Some (Inr (map (\<lambda>(z, x, y). tileUrl z x y) (tilesInBoundingBox M b [minZoom..maxZoom])))
   \<and> sorted_wrt tileBefore (tilesInBoundingBox M b [minZoom..maxZoom])
   \<and> set (tilesInBoundingBox M b [minZoom..maxZoom]) =
       {(z, x, y). minZoom \<le> z \<and> z \<le> maxZoom
          \<and> js_le (Math_min (lngToTileX M (west b) z) (lngToTileX M (east b) z)) (Fin x)
          \<and> js_le (Fin x) (Math_max (lngToTileX M (west b) z) (lngToTileX M (east b) z))
          \<and> js_le (Math_min (latToTileY M (north b) z) (latToTileY M (south b) z)) (Fin y)
          \<and> js_le (Fin y) (Math_max (latToTileY M (north b) z) (latToTileY M (south b) z))}
   \<and> distinct (map (\<lambda>(z, x, y). tileUrl z x y) (tilesInBoundingBox M b [minZoom..maxZoom]))"
proof (intro conjI)
  show "generateTileUrls M b minZoom maxZoom =
      Some (Inr (map (\<lambda>(z, x, y). tileUrl z x y) (tilesInBoundingBox M b [minZoom..maxZoom])))"
    using assms by (rule generateTileUrls_eq)
  show "sorted_wrt tileBefore (tilesInBoundingBox M b [minZoom..maxZoom])"
    by (rule sorted_tiles)
  then show "distinct (map (\<lambda>(z, x, y). tileUrl z x y) (tilesInBoundingBox M b [minZoom..maxZoom]))"
    by (intro distinct_urls distinct_of_sorted)
  have "\<forall>z. minZoom \<le> z \<and> z \<le> maxZoom \<longrightarrow> safeCorners M b z"
    using assms(1) by blast
  then show "set (tilesInBoundingBox M b [minZoom..maxZoom]) =
       {(z, x, y). minZoom \<le> z \<and> z \<le> maxZoom
          \<and> js_le (Math_min (lngToTileX M (west b) z) (lngToTileX M (east b) z)) (Fin x)
          \<and> js_le (Fin x) (Math_max (lngToTileX M (west b) z) (lngToTileX M (east b) z))
          \<and> js_le (Math_min (latToTileY M (north b) z) (latToTileY M (south b) z)) (Fin y)
          \<and> js_le (Fin y) (Math_max (latToTileY M (north b) z) (latToTileY M (south b) z))}"
    by (rule set_tiles)
qed

text \<open>
  The hypotheses of C6 hold of the box that is the point at the origin and the zooms 0 and
  1: the call returns the two URLs of the tiles \<open>(0, 0, 0)\<close> and \<open>(1, 1, 1)\<close>.
\<close>

theorem generateTileUrls_enumerates_safe_box_witness:
  "safe 0 \<and> safeCorners Math_real originBox 0 \<and> safe 1 \<and> safeCorners Math_real originBox 1
   \<and> length (tilesInBoundingBox Math_real originBox [0..1]) < 2 ^ 32
   \<and> tilesInBoundingBox Math_real originBox [0..1] = [(0, 0, 0), (1, 1, 1)]
   \<and> generateTileUrls Math_real originBox 0 1 =
       Some (Inr [tilePrefix @ ''0/0/0'', tilePrefix @ ''1/1/1''])"
proof -
  have tiles: "tilesInBoundingBox Math_real originBox [0..1] = [(0, 0, 0), (1, 1, 1)]"
    by (simp add: tilesInBoundingBox_def upto_0_1 tilesAt_origin)
  have len: "length (tilesInBoundingBox Math_real originBox [0..1]) < 2 ^ 32"
    unfolding tiles by simp
  note claim = generateTileUrls_enumerates_safe_box [OF origin_range len]
  have "generateTileUrls Math_real originBox 0 1 =
      Some (Inr [tilePrefix @ ''0/0/0'', tilePrefix @ ''1/1/1''])"
    using claim [THEN conjunct1]
    by (simp add: tiles tileUrl_zyx zyxUrl_def ToString_0_1)
  then show ?thesis
    using tiles len safe_small safeCorners_origin by simp
qed

text \<open>
  C6 as the specification states it, for every box and every zoom range, fails for the box
  that is the point at the origin at zoom 60. The box has one tile there, \<open>(2^59, 2^59)\<close>.
  The loop variable \<open>y\<close> starts at \<open>2^59\<close>, where \<^verbatim>\<open>y++\<close> gives \<open>2^59\<close> again: the loop
  pushes the URL of that tile until the array is full and \<^verbatim>\<open>push\<close> throws. The call
  returns no list.
\<close>

theorem generateTileUrls_stalled_counterexample:
  "tilesInBoundingBox Math_real originBox [60..60] = [(60, 2 ^ 59, 2 ^ 59)]
   \<and> js_inc (Fin (2 ^ 59)) = Fin (2 ^ 59)
   \<and> generateTileUrls Math_real originBox 60 60 = Some (Inl RangeError)
   \<and> generateTileUrls Math_real originBox 60 60 \<noteq>
       Some (Inr (map (\<lambda>(z, x, y). tileUrl z x y)
         (tilesInBoundingBox Math_real originBox [60..60])))"
proof (intro conjI)
  show "tilesInBoundingBox Math_real originBox [60..60] = [(60, 2 ^ 59, 2 ^ 59)]"
    by (simp add: tilesInBoundingBox_def upto_0_1 tilesAt_origin)
  show "js_inc (Fin (2 ^ 59)) = Fin (2 ^ 59)"
    by (rule js_inc_stalls)
  show "generateTileUrls Math_real originBox 60 60 = Some (Inl RangeError)"
    by (rule generateTileUrls_stalls)
  then show "generateTileUrls Math_real originBox 60 60 \<noteq>
      Some (Inr (map (\<lambda>(z, x, y). tileUrl z x y)
        (tilesInBoundingBox Math_real originBox [60..60])))"
    by simp
qed

text \<open>
  C7, where the doubles count exactly. For every box and every single zoom \<open>z\<close> such that
  \<open>z\<close> and the four corner coordinates at \<open>z\<close> are whole numbers of a magnitude below
  \<open>2^53\<close> and the box has fewer than \<open>2^32\<close> tiles at \<open>z\<close>,
  \<^verbatim>\<open>generateTileUrls(box, z, z)\<close> returns a list, \<^verbatim>\<open>estimateTileCount(box, z, z)\<close> is its
  length, and it is the product of width and height. \<open>estimateTileCount\<close> is a function of
  the arithmetic, the box and the zooms alone: it takes no world and returns none, and its
  loop carries a number, not a list.
\<close>

theorem estimateTileCount_is_length_of_safe_box:
  assumes "safe z" and "safeCorners M b z" and "length (tilesAt M b z) < 2 ^ 32"
  shows "(\<exists>urls. generateTileUrls M b z z = Some (Inr urls)
      \<and> estimateTileCount M b z z = Some (Inr (Fin (int (length urls)))))
   \<and> (\<exists>wx ex ny sy. lngToTileX M (west b) z = Fin wx \<and> lngToTileX M (east b) z = Fin ex
      \<and> latToTileY M (north b) z = Fin ny \<and> latToTileY M (south b) z = Fin sy
      \<and> estimateTileCount M b z z =
          Some (Inr (Fin ((\<bar>ex - wx\<bar> + 1) * (\<bar>sy - ny\<bar> + 1)))))"
proof -
  obtain wx ex ny sy where c: "lngToTileX M (west b) z = Fin wx"
    "lngToTileX M (east b) z = Fin ex" "latToTileY M (north b) z = Fin ny"
    "latToTileY M (south b) z = Fin sy"
    using assms(2) by (rule safeCorners_Fin)
  note len = length_tilesAt [OF c]
  have small: "(\<bar>ex - wx\<bar> + 1) * (\<bar>sy - ny\<bar> + 1) < 2 ^ 32"
    using assms(3) unfolding len [symmetric] by simp
  have count: "estimateTileCount M b z z =
      Some (Inr (Fin ((\<bar>ex - wx\<bar> + 1) * (\<bar>sy - ny\<bar> + 1))))"
    unfolding estimateTileCount_def by (rule countLoop_single [OF assms(1) c small])
  have one: "[z..z] = [z]"
    by (simp add: upto_rec1)
  have box: "tilesInBoundingBox M b [z..z] = tilesAt M b z"
    by (simp add: one tilesInBoundingBox_def)
  have range: "\<forall>z'. z \<le> z' \<and> z' \<le> z \<longrightarrow> safe z' \<and> safeCorners M b z'"
  proof (intro allI impI)
    fix z'
    assume "z \<le> z' \<and> z' \<le> z"
    then have "z' = z" by simp
    then show "safe z' \<and> safeCorners M b z'" using assms(1,2) by simp
  qed
  have "generateTileUrls M b z z =
      Some (Inr (map (\<lambda>(z, x, y). tileUrl z x y) (tilesAt M b z)))"
    using generateTileUrls_eq [OF range] assms(3) unfolding box by simp
  moreover have "estimateTileCount M b z z =
      Some (Inr (Fin (int (length (map (\<lambda>(z, x, y). tileUrl z x y) (tilesAt M b z))))))"
    unfolding count by (simp add: len)
  ultimately have "\<exists>urls. generateTileUrls M b z z = Some (Inr urls)
      \<and> estimateTileCount M b z z = Some (Inr (Fin (int (length urls))))"
    by blast
  then show ?thesis
    using c count by blast
qed

text \<open>
  The hypotheses of C7 hold of the box that is the point at the origin at zoom 0: the list
  has one URL and the count is 1.
\<close>

theorem estimateTileCount_is_length_of_safe_box_witness:
  "safe 0 \<and> safeCorners Math_real originBox 0
   \<and> length (tilesAt Math_real originBox 0) < 2 ^ 32
   \<and> generateTileUrls Math_real originBox 0 0 = Some (Inr [tilePrefix @ ''0/0/0''])
   \<and> estimateTileCount Math_real originBox 0 0 = Some (Inr (Fin 1))"
proof -
  have len: "length (tilesAt Math_real originBox 0) < 2 ^ 32"
    by (simp add: tilesAt_origin)
  note claim = estimateTileCount_is_length_of_safe_box
    [OF safe_small(1) safeCorners_origin(1) len]
  obtain urls where urls: "generateTileUrls Math_real originBox 0 0 = Some (Inr urls)"
    and count: "estimateTileCount Math_real originBox 0 0 = Some (Inr (Fin (int (length urls))))"
    using claim [THEN conjunct1] by blast
  have "urls = [tilePrefix @ ''0/0/0'']"
    using urls by (simp add: generateTileUrls_origin)
  then have "estimateTileCount Math_real originBox 0 0 = Some (Inr (Fin 1))"
    using count by simp
  then show ?thesis
    using len safe_small safeCorners_origin by (simp add: generateTileUrls_origin)
qed

text \<open>
  C7 as the specification states it, for every box and every zoom, fails for the box that
  is the point at the origin at zoom 60: \<^verbatim>\<open>estimateTileCount\<close> returns 1, and
  \<^verbatim>\<open>generateTileUrls\<close> returns no list, its inner loop pushing until \<^verbatim>\<open>push\<close> throws.
\<close>

theorem estimateTileCount_stalled_counterexample:
  "estimateTileCount Math_real originBox 60 60 = Some (Inr (Fin 1))
   \<and> generateTileUrls Math_real originBox 60 60 = Some (Inl RangeError)
   \<and> (\<forall>urls. generateTileUrls Math_real originBox 60 60 \<noteq> Some (Inr urls))"
  by (simp add: estimateTileCount_stalls generateTileUrls_stalls)

text \<open>
  C8. Every URL the program builds from the template is the prefix followed by
  \<open>z/y/x\<close>; it is the \<open>z/x/y\<close> URL only when \<open>x\<close> and \<open>y\<close> are printed alike, where the two
  are the same string. This holds for three whole numbers printed by their numerals and
  for loop variables of every value, infinite ones and \<^verbatim>\<open>NaN\<close> included, and so for
  every element of every list that \<^verbatim>\<open>generateTileUrls\<close>, the service worker's
  \<^verbatim>\<open>generateTileURLsForLocation\<close> and the map manager's \<^verbatim>\<open>getVisibleTiles\<close> return:
  each of these calls does not return, or throws \<^verbatim>\<open>RangeError\<close>, or returns a list of
  \<open>z/y/x\<close> URLs.
\<close>

theorem tile_urls_in_zyx_order:
  "tileUrl z x y = zyxUrl z x y
   \<and> (tileUrl z x y = zxyUrl z x y) = (x = y)
   \<and> tileUrlOf v u w = zyxUrlOf v u w
   \<and> (tileUrlOf v u w = zxyUrlOf v u w) = (NumberToString u = NumberToString w)
   \<and> (generateTileUrls M b minZoom maxZoom = None
      \<or> generateTileUrls M b minZoom maxZoom = Some (Inl RangeError)
      \<or> (\<exists>ts. generateTileUrls M b minZoom maxZoom =
            Some (Inr (map (\<lambda>(z, x, y). zyxUrlOf (Fin z) x y) ts))))
   \<and> (generateTileURLsForLocation M lat lon radiusKm zoomLevels = None
      \<or> generateTileURLsForLocation M lat lon radiusKm zoomLevels = Some (Inl RangeError)
      \<or> (\<exists>ts. generateTileURLsForLocation M lat lon radiusKm zoomLevels =
            Some (Inr (map (\<lambda>(z, x, y). zyxUrlOf (Fin z) x y) ts))))
   \<and> (getVisibleTiles M northWest southEast zoom = None
      \<or> getVisibleTiles M northWest southEast zoom = Some (Inl RangeError)
      \<or> (\<exists>ts. getVisibleTiles M northWest southEast zoom =
            Some (Inr (map (\<lambda>(z, x, y). zyxUrlOf (Fin z) x y) ts))))"
proof (intro conjI)
  show "tileUrl z x y = zyxUrl z x y" by (rule tileUrl_zyx)
  show "(tileUrl z x y = zxyUrl z x y) = (x = y)"
    unfolding tileUrl_zyx by (rule zyx_is_zxy)
  show "tileUrlOf v u w = zyxUrlOf v u w" by (rule tileUrlOf_zyx)
  show "(tileUrlOf v u w = zxyUrlOf v u w) = (NumberToString u = NumberToString w)"
    unfolding tileUrlOf_zyx by (rule zyxOf_is_zxyOf)
  have fn: "(\<lambda>(z, x, y). tileUrlOf (Fin z) x y) = (\<lambda>(z, x, y). zyxUrlOf (Fin z) x y)"
    by (simp add: tileUrlOf_zyx)
  have shape: "G = None \<or> G = Some (Inl RangeError)
      \<or> (\<exists>ts. G = Some (Inr (map (\<lambda>(z, x, y). zyxUrlOf (Fin z) x y) ts)))"
    if sound: "\<And>r. G = Some r \<Longrightarrow> (case r of Inl e \<Rightarrow> e = RangeError
       | Inr res \<Rightarrow> \<exists>ts. res = [] @ map (\<lambda>(z, x, y). tileUrlOf (Fin z) x y) ts)"
    for G :: "(error + string list) option"
  proof (cases G)
    case None
    then show ?thesis by simp
  next
    case (Some r)
    show ?thesis
    proof (cases r)
      case (Inl e)
      then show ?thesis using sound [OF Some] Some by simp
    next
      case (Inr res)
      then obtain ts where "res = map (\<lambda>(z, x, y). zyxUrlOf (Fin z) x y) ts"
        using sound [OF Some] unfolding fn by auto
      then show ?thesis using Some Inr by blast
    qed
  qed
  show "generateTileUrls M b minZoom maxZoom = None
      \<or> generateTileUrls M b minZoom maxZoom = Some (Inl RangeError)
      \<or> (\<exists>ts. generateTileUrls M b minZoom maxZoom =
            Some (Inr (map (\<lambda>(z, x, y). zyxUrlOf (Fin z) x y) ts)))"
    unfolding generateTileUrls_def by (rule shape) (rule zLoop_sound)
  show "generateTileURLsForLocation M lat lon radiusKm zoomLevels = None
      \<or> generateTileURLsForLocation M lat lon radiusKm zoomLevels = Some (Inl RangeError)
      \<or> (\<exists>ts. generateTileURLsForLocation M lat lon radiusKm zoomLevels =
            Some (Inr (map (\<lambda>(z, x, y). zyxUrlOf (Fin z) x y) ts)))"
    unfolding generateTileURLsForLocation_def by (rule shape) (rule zoomLevelsLoop_sound)
  have rows: "case r of Inl e \<Rightarrow> e = RangeError
      | Inr res \<Rightarrow> \<exists>ts. res = [] @ map (\<lambda>(z, x, y). tileUrlOf (Fin z) x y) ts"
    if run: "xLoop zoom x0 x1 y0 y1 [] = Some r" for x0 x1 y0 y1 r
  proof (cases r)
    case (Inl e)
    then show ?thesis using xLoop_sound [OF run] by simp
  next
    case (Inr res)
    then obtain ps where "res = map (\<lambda>(x, y). tileUrlOf (Fin zoom) x y) ps"
      using xLoop_sound [OF run] by auto
    then have "res = [] @ map (\<lambda>(z, x, y). tileUrlOf (Fin z) x y) (map (Pair zoom) ps)"
      by (simp add: comp_def split_beta)
    then show ?thesis unfolding Inr by (simp only: sum.case) blast
  qed
  show "getVisibleTiles M northWest southEast zoom = None
      \<or> getVisibleTiles M northWest southEast zoom = Some (Inl RangeError)
      \<or> (\<exists>ts. getVisibleTiles M northWest southEast zoom =
            Some (Inr (map (\<lambda>(z, x, y). zyxUrlOf (Fin z) x y) ts)))"
    unfolding getVisibleTiles_def mm_latLngToTile_Inr
    by (rule shape) (simp add: rows)
qed

section \<open>The cache storage\<close>

lemma caches_keys_open: "name \<in> set (caches_keys (caches_open name cs))"
  by (simp add: caches_open_def caches_keys_def)

lemma caches_open_present: "name \<in> set (caches_keys cs) \<Longrightarrow> caches_open name cs = cs"
  by (simp add: caches_open_def)

lemma cacheOf_open: "cacheOf (caches_open name cs) other = cacheOf cs other"
proof (cases "name \<in> set (caches_keys cs)")
  case True
  then show ?thesis by (simp add: caches_open_def)
next
  case False
  then have "map_of cs name = None"
    by (simp add: caches_keys_def map_of_eq_None_iff)
  then show ?thesis
    using False by (simp add: caches_open_def cacheOf_def map_add_def split: option.split)
qed

lemma caches_keys_modify: "caches_keys (caches_modify name f cs) = caches_keys cs"
  by (induction cs) (auto simp: caches_keys_def caches_modify_def)

lemma map_of_modify:
  "map_of (caches_modify name f cs) other =
     (if other = name then map_option f (map_of cs name) else map_of cs other)"
  by (induction cs) (auto simp: caches_modify_def)

lemma cacheOf_modify:
  "name \<in> set (caches_keys cs) \<Longrightarrow>
   cacheOf (caches_modify name f cs) other =
     (if other = name then f (cacheOf cs name) else cacheOf cs other)"
proof -
  assume "name \<in> set (caches_keys cs)"
  then have "map_of cs name \<noteq> None"
    by (simp add: caches_keys_def map_of_eq_None_iff)
  then obtain c where "map_of cs name = Some c"
    by blast
  then show ?thesis
    by (simp add: cacheOf_def map_of_modify)
qed

lemma cacheOf_delete:
  "cacheOf (caches_delete name cs) other = (if other = name then [] else cacheOf cs other)"
  by (induction cs) (auto simp: caches_delete_def cacheOf_def)

lemma cache_match_put:
  "cache_match (cache_put u r c) v = (if v = u then Some r else cache_match c v)"
proof -
  have "map_of (filter (\<lambda>entry. fst entry \<noteq> u) c) v = (if v = u then None else map_of c v)"
    by (induction c) auto
  then show ?thesis
    by (simp add: cache_match_def cache_put_def map_add_def split: option.split)
qed

lemma cache_keys_put: "set (cache_keys (cache_put u r c)) = insert u (set (cache_keys c))"
  by (auto simp: cache_keys_def cache_put_def)

section \<open>Fetching and putting\<close>

lemma keys_put:
  "name \<in> set (caches_keys (caches W)) \<Longrightarrow>
   set (cache_keys (cacheOf (caches W) other)) \<subseteq>
     set (cache_keys (cacheOf (caches (snd (put H name u r W))) other))"
  by (auto simp: put_def cacheOf_modify cache_keys_put)

lemma names_put: "caches_keys (caches (snd (put H name u r W))) = caches_keys (caches W)"
  by (simp add: put_def caches_keys_modify)

lemma cacheOf_open_cache: "cacheOf (caches (open_cache name W)) other = cacheOf (caches W) other"
  by (simp add: open_cache_def cacheOf_open)

lemma names_open_cache: "name \<in> set (caches_keys (caches (open_cache name W)))"
  by (simp add: open_cache_def caches_keys_open)

lemma open_cache_present:
  "name \<in> set (caches_keys (caches W)) \<Longrightarrow> open_cache name W = W"
  by (simp add: open_cache_def caches_open_present)

section \<open>The batch fetch\<close>

lemma cacheTilesLoop_completed:
  "fst (cacheTilesLoop H name urls completed total' onProgress W) = completed + length urls"
  by (induction urls arbitrary: completed W) (simp_all add: Let_def)

lemma cacheTiles_completed: "fst (cacheTiles H t W urls onProgress) = length urls"
  by (simp add: cacheTiles_def Let_def split_beta cacheTilesLoop_completed)

lemma cacheTiles_flag:
  "cacheTiles H (t\<lparr>isDownloading := f\<rparr>) W urls onProgress = cacheTiles H t W urls onProgress"
  by (simp add: cacheTiles_def updateCacheInfo_def)

lemma cacheTiles_failing:
  "cacheTiles failingHost newTileCache freshWorld
     [tilePrefix @ ''0/0/0'', tilePrefix @ ''1/1/1''] False =
   (2, \<lparr>caches = [(''geocoordinate-tiles-v1'', [])], onLine = True,
        netCalls = [tilePrefix @ ''0/0/0'', tilePrefix @ ''1/1/1''], progress = []\<rparr>)"
  by (simp add: cacheTiles_def newTileCache_def freshWorld_def open_cache_def caches_open_def
      caches_keys_def fetch_def failingHost_def ok_def updateCacheInfo_def Let_def)

text \<open>
  C1 is not what the code does. \<^verbatim>\<open>cacheTiles\<close> returns \<^verbatim>\<open>completed\<close>, which it
  increments after the \<^verbatim>\<open>try\<close> block on every path: with a host whose first fetch is
  rejected and whose second is answered 404, two URLs give the result 2 while the tile
  cache stays empty, and \<^verbatim>\<open>downloadArea\<close> over the same two tiles reports 2 as well.
\<close>

theorem cacheTiles_counts_failed_attempts:
  "fst (cacheTiles failingHost newTileCache freshWorld
          [tilePrefix @ ''0/0/0'', tilePrefix @ ''1/1/1''] False) = 2
   \<and> cacheOf (caches (snd (cacheTiles failingHost newTileCache freshWorld
          [tilePrefix @ ''0/0/0'', tilePrefix @ ''1/1/1''] False))) (cacheName newTileCache) = []
   \<and> map_option fst
         (downloadArea failingHost Math_real newTileCache freshWorld originBox 0 1 False) =
       Some (Inr 2)
   \<and> map_option (\<lambda>r. cacheOf (caches (snd (snd r))) (cacheName newTileCache))
         (downloadArea failingHost Math_real newTileCache freshWorld originBox 0 1 False) =
       Some []"
proof -
  have name: "cacheName newTileCache = ''geocoordinate-tiles-v1''"
    by (simp add: newTileCache_def)
  have "downloadArea failingHost Math_real newTileCache freshWorld originBox 0 1 False =
      Some (Inr 2, newTileCache\<lparr>isDownloading := False\<rparr>,
       \<lparr>caches = [(''geocoordinate-tiles-v1'', [])], onLine = True,
        netCalls = [tilePrefix @ ''0/0/0'', tilePrefix @ ''1/1/1''], progress = []\<rparr>)"
    by (simp add: downloadArea_def generateTileUrls_origin cacheTiles_flag cacheTiles_failing)
  then show ?thesis
    by (simp add: cacheTiles_failing name cacheOf_def)
qed

section \<open>The download flag\<close>

lemma downloadArea_result:
  "generateTileUrls M b minZoom maxZoom = Some (Inr urls) \<Longrightarrow>
   downloadArea H M t W b minZoom maxZoom onProgress =
     Some (Inr (length urls), t\<lparr>isDownloading := False\<rparr>,
       snd (cacheTiles H t W urls onProgress))"
  using cacheTiles_completed [of H t W urls onProgress]
  by (simp add: downloadArea_def cacheTiles_flag split_beta)

lemma downloadArea_throws:
  "generateTileUrls M b minZoom maxZoom = Some (Inl e) \<Longrightarrow>
   downloadArea H M t W b minZoom maxZoom onProgress =
     Some (Inl e, t\<lparr>isDownloading := True\<rparr>, W)"
  by (simp add: downloadArea_def)

lemma downloadArea_hangs:
  "generateTileUrls M b minZoom maxZoom = None \<Longrightarrow>
   downloadArea H M t W b minZoom maxZoom onProgress = None"
  by (simp add: downloadArea_def)

lemma downloadArea_cases:
  "(generateTileUrls M b minZoom maxZoom = None
      \<and> downloadArea H M t W b minZoom maxZoom onProgress = None)
   \<or> (generateTileUrls M b minZoom maxZoom = Some (Inl RangeError)
      \<and> downloadArea H M t W b minZoom maxZoom onProgress =
          Some (Inl RangeError, t\<lparr>isDownloading := True\<rparr>, W))
   \<or> (\<exists>urls. generateTileUrls M b minZoom maxZoom = Some (Inr urls)
      \<and> downloadArea H M t W b minZoom maxZoom onProgress =
          Some (Inr (length urls), t\<lparr>isDownloading := False\<rparr>,
            snd (cacheTiles H t W urls onProgress)))"
proof (cases "generateTileUrls M b minZoom maxZoom")
  case None
  then show ?thesis by (simp add: downloadArea_hangs)
next
  case (Some r)
  show ?thesis
  proof (cases r)
    case (Inl e)
    then have "e = RangeError"
      using generateTileUrls_sound [OF Some] by simp
    then show ?thesis
      using Some Inl by (simp add: downloadArea_throws)
  next
    case (Inr urls)
    then show ?thesis
      using Some by (simp add: downloadArea_result)
  qed
qed

text \<open>
  C2, as the source has it. \<^verbatim>\<open>downloadArea\<close> writes the flag and never reads it: started
  with the flag set it does exactly what it does with the flag clear. Whatever the flag,
  the call does not return when building the URLs does not; it throws \<open>RangeError\<close> and
  leaves the flag set when building the URLs throws; and otherwise it runs the batch,
  returns the count and leaves the flag clear. It never fails with
  \<open>DownloadAlreadyInProgress\<close>, an error that does not exist in the source, and it never
  returns a count with the flag set.
\<close>

theorem downloadArea_never_reads_flag:
  "downloadArea H M (t\<lparr>isDownloading := True\<rparr>) W b minZoom maxZoom onProgress =
     downloadArea H M (t\<lparr>isDownloading := False\<rparr>) W b minZoom maxZoom onProgress
   \<and> ((generateTileUrls M b minZoom maxZoom = None
        \<and> downloadArea H M t W b minZoom maxZoom onProgress = None)
      \<or> (generateTileUrls M b minZoom maxZoom = Some (Inl RangeError)
        \<and> downloadArea H M t W b minZoom maxZoom onProgress =
            Some (Inl RangeError, t\<lparr>isDownloading := True\<rparr>, W))
      \<or> (\<exists>urls. generateTileUrls M b minZoom maxZoom = Some (Inr urls)
        \<and> downloadArea H M t W b minZoom maxZoom onProgress =
            Some (Inr (length urls), t\<lparr>isDownloading := False\<rparr>,
              snd (cacheTiles H t W urls onProgress))))
   \<and> downloadArea H M t W b minZoom maxZoom onProgress \<noteq>
       Some (Inl DownloadAlreadyInProgress, t', W')
   \<and> downloadArea H M t W b minZoom maxZoom onProgress \<noteq>
       Some (Inr cached, t'\<lparr>isDownloading := True\<rparr>, W')"
proof (intro conjI)
  show "downloadArea H M (t\<lparr>isDownloading := True\<rparr>) W b minZoom maxZoom onProgress =
      downloadArea H M (t\<lparr>isDownloading := False\<rparr>) W b minZoom maxZoom onProgress"
    by (simp add: downloadArea_def)
  show "(generateTileUrls M b minZoom maxZoom = None
        \<and> downloadArea H M t W b minZoom maxZoom onProgress = None)
      \<or> (generateTileUrls M b minZoom maxZoom = Some (Inl RangeError)
        \<and> downloadArea H M t W b minZoom maxZoom onProgress =
            Some (Inl RangeError, t\<lparr>isDownloading := True\<rparr>, W))
      \<or> (\<exists>urls. generateTileUrls M b minZoom maxZoom = Some (Inr urls)
        \<and> downloadArea H M t W b minZoom maxZoom onProgress =
            Some (Inr (length urls), t\<lparr>isDownloading := False\<rparr>,
              snd (cacheTiles H t W urls onProgress)))"
    by (rule downloadArea_cases)
  show "downloadArea H M t W b minZoom maxZoom onProgress \<noteq>
      Some (Inl DownloadAlreadyInProgress, t', W')"
    using downloadArea_cases [of M b minZoom maxZoom H t W onProgress] by auto
  have "isDownloading (t\<lparr>isDownloading := False\<rparr>) \<noteq> isDownloading (t'\<lparr>isDownloading := True\<rparr>)"
    by simp
  then have "t\<lparr>isDownloading := False\<rparr> \<noteq> t'\<lparr>isDownloading := True\<rparr>"
    by metis
  then show "downloadArea H M t W b minZoom maxZoom onProgress \<noteq>
      Some (Inr cached, t'\<lparr>isDownloading := True\<rparr>, W')"
    using downloadArea_cases [of M b minZoom maxZoom H t W onProgress] by auto
qed

lemma cacheTiles_ok_origin:
  "cacheTiles okHost newTileCache freshWorld [tilePrefix @ ''0/0/0''] False =
   (1, \<lparr>caches = [(''geocoordinate-tiles-v1'',
          [(tilePrefix @ ''0/0/0'',
            \<lparr>status = 200, statusText = ''OK'', headers = [], body = tilePrefix @ ''0/0/0''\<rparr>)])],
        onLine = True, netCalls = [tilePrefix @ ''0/0/0''], progress = []\<rparr>)"
  by (simp add: cacheTiles_def newTileCache_def freshWorld_def open_cache_def caches_open_def
      caches_keys_def fetch_def okHost_def ok_def put_def caches_modify_def cache_put_def
      updateCacheInfo_def Let_def)

text \<open>
  C2 as the specification states it fails: with the flag already set, \<^verbatim>\<open>downloadArea\<close>
  over the single tile at the origin, zoom 0, on a host that answers every fetch, does not
  fail. It fetches the tile, stores it, returns the count 1 and clears the flag.
\<close>

theorem downloadArea_flag_counterexample:
  "isDownloading (newTileCache\<lparr>isDownloading := True\<rparr>)
   \<and> downloadArea okHost Math_real (newTileCache\<lparr>isDownloading := True\<rparr>) freshWorld
        originBox 0 0 False =
      Some (Inr 1, newTileCache\<lparr>isDownloading := False\<rparr>,
       \<lparr>caches = [(''geocoordinate-tiles-v1'',
          [(tilePrefix @ ''0/0/0'',
            \<lparr>status = 200, statusText = ''OK'', headers = [], body = tilePrefix @ ''0/0/0''\<rparr>)])],
        onLine = True, netCalls = [tilePrefix @ ''0/0/0''], progress = []\<rparr>)"
  by (simp add: downloadArea_def generateTileUrls_origin cacheTiles_flag cacheTiles_ok_origin)

section \<open>The round trip through the tile cache\<close>

lemma TILE_CACHE_name: "TILE_CACHE = ''geocoordinate-tiles-v1''"
  by (simp add: TILE_CACHE_def CACHE_VERSION_def)

lemma cacheTile_True:
  assumes "cacheTile H t W u = (True, W')"
  shows "\<exists>r. respond H (length (netCalls W)) u = Inr r \<and> ok r \<and> \<not> putRejects H u r
    \<and> W' = (open_cache (cacheName t) W)
        \<lparr>netCalls := netCalls W @ [u],
         caches := caches_modify (cacheName t) (cache_put u r)
           (caches (open_cache (cacheName t) W))\<rparr>"
proof (cases "respond H (length (netCalls W)) u")
  case (Inl e)
  then show ?thesis
    using assms by (simp add: cacheTile_def fetch_def open_cache_def)
next
  case (Inr r)
  then show ?thesis
    using assms
    by (auto simp: cacheTile_def fetch_def open_cache_def put_def Let_def split: if_splits)
qed

lemma handleTileRequest_hit:
  assumes "name = TILE_CACHE"
    and "W' = (open_cache name W)
        \<lparr>netCalls := calls,
         caches := caches_modify name (cache_put u r) (caches (open_cache name W))\<rparr>"
  shows "cache_match (cacheOf (caches W') TILE_CACHE) u = Some r"
    and "handleTileRequest H' W' u = (r, W')"
proof -
  have present: "TILE_CACHE \<in> set (caches_keys (caches (open_cache TILE_CACHE W)))"
    by (rule names_open_cache)
  then have keys: "TILE_CACHE \<in> set (caches_keys (caches W'))"
    using assms by (simp add: caches_keys_modify)
  show hit: "cache_match (cacheOf (caches W') TILE_CACHE) u = Some r"
    using assms present by (simp add: cacheOf_modify cache_match_put)
  show "handleTileRequest H' W' u = (r, W')"
    using hit by (simp add: handleTileRequest_def open_cache_present [OF keys])
qed

text \<open>
  C5. When \<^verbatim>\<open>cacheTile(url)\<close> returned \<^verbatim>\<open>true\<close> on a tile cache whose name is the
  service worker's tile cache name (as the constructor sets it), the fetch was answered by
  an ok response, that response is the entry of \<open>url\<close> in the tile cache, and
  \<^verbatim>\<open>handleTileRequest\<close> answers a request for \<open>url\<close> with it, on any host, leaving the
  world as it was: the list of network calls does not grow.
\<close>

theorem cached_tile_is_served_without_fetch:
  assumes "cacheTile H t W u = (True, W')" and "cacheName t = TILE_CACHE"
  shows "\<exists>r. respond H (length (netCalls W)) u = Inr r \<and> ok r
    \<and> cache_match (cacheOf (caches W') TILE_CACHE) u = Some r
    \<and> handleTileRequest H' W' u = (r, W')
    \<and> netCalls (snd (handleTileRequest H' W' u)) = netCalls W'"
proof -
  obtain r where r: "respond H (length (netCalls W)) u = Inr r" "ok r"
    and W': "W' = (open_cache (cacheName t) W)
        \<lparr>netCalls := netCalls W @ [u],
         caches := caches_modify (cacheName t) (cache_put u r)
           (caches (open_cache (cacheName t) W))\<rparr>"
    using cacheTile_True [OF assms(1)] by blast
  show ?thesis
    using r handleTileRequest_hit [OF assms(2) W'] by simp
qed

lemma cacheTile_ok_origin:
  "cacheTile okHost newTileCache freshWorld (tilePrefix @ ''0/0/0'') =
   (True, \<lparr>caches = [(''geocoordinate-tiles-v1'',
          [(tilePrefix @ ''0/0/0'',
            \<lparr>status = 200, statusText = ''OK'', headers = [], body = tilePrefix @ ''0/0/0''\<rparr>)])],
        onLine = True, netCalls = [tilePrefix @ ''0/0/0''], progress = []\<rparr>)"
  by (simp add: cacheTile_def newTileCache_def freshWorld_def open_cache_def caches_open_def
      caches_keys_def fetch_def okHost_def ok_def put_def caches_modify_def cache_put_def Let_def)

text \<open>
  An instance of C5: the tile at the origin is cached on the answering host, and the
  service worker then serves it on the host whose every fetch fails.
\<close>

theorem cached_tile_is_served_without_fetch_witness:
  "cacheTile okHost newTileCache freshWorld (tilePrefix @ ''0/0/0'') =
     (True, \<lparr>caches = [(''geocoordinate-tiles-v1'',
          [(tilePrefix @ ''0/0/0'',
            \<lparr>status = 200, statusText = ''OK'', headers = [], body = tilePrefix @ ''0/0/0''\<rparr>)])],
        onLine = True, netCalls = [tilePrefix @ ''0/0/0''], progress = []\<rparr>)
   \<and> cacheName newTileCache = TILE_CACHE
   \<and> handleTileRequest failingHost
        \<lparr>caches = [(''geocoordinate-tiles-v1'',
          [(tilePrefix @ ''0/0/0'',
            \<lparr>status = 200, statusText = ''OK'', headers = [], body = tilePrefix @ ''0/0/0''\<rparr>)])],
        onLine = True, netCalls = [tilePrefix @ ''0/0/0''], progress = []\<rparr>
        (tilePrefix @ ''0/0/0'') =
     (\<lparr>status = 200, statusText = ''OK'', headers = [], body = tilePrefix @ ''0/0/0''\<rparr>,
      \<lparr>caches = [(''geocoordinate-tiles-v1'',
          [(tilePrefix @ ''0/0/0'',
            \<lparr>status = 200, statusText = ''OK'', headers = [], body = tilePrefix @ ''0/0/0''\<rparr>)])],
        onLine = True, netCalls = [tilePrefix @ ''0/0/0''], progress = []\<rparr>)"
proof -
  have name: "cacheName newTileCache = TILE_CACHE"
    by (simp add: newTileCache_def TILE_CACHE_name)
  obtain r where r: "respond okHost (length (netCalls freshWorld)) (tilePrefix @ ''0/0/0'') = Inr r"
    and served: "handleTileRequest failingHost
        \<lparr>caches = [(''geocoordinate-tiles-v1'',
          [(tilePrefix @ ''0/0/0'',
            \<lparr>status = 200, statusText = ''OK'', headers = [], body = tilePrefix @ ''0/0/0''\<rparr>)])],
        onLine = True, netCalls = [tilePrefix @ ''0/0/0''], progress = []\<rparr>
        (tilePrefix @ ''0/0/0'') =
      (r, \<lparr>caches = [(''geocoordinate-tiles-v1'',
          [(tilePrefix @ ''0/0/0'',
            \<lparr>status = 200, statusText = ''OK'', headers = [], body = tilePrefix @ ''0/0/0''\<rparr>)])],
        onLine = True, netCalls = [tilePrefix @ ''0/0/0''], progress = []\<rparr>)"
    using cached_tile_is_served_without_fetch [OF cacheTile_ok_origin name, of failingHost]
    by blast
  have "r = \<lparr>status = 200, statusText = ''OK'', headers = [], body = tilePrefix @ ''0/0/0''\<rparr>"
    using r by (simp add: okHost_def)
  then show ?thesis
    using served name by (simp add: cacheTile_ok_origin)
qed

section \<open>The geocoding route\<close>

lemma DYNAMIC_CACHE_name: "DYNAMIC_CACHE = ''geocoordinate-dynamic-v1''"
  by (simp add: DYNAMIC_CACHE_def CACHE_VERSION_def)

lemma handleApiRequest_offline:
  "\<not> onLine W \<Longrightarrow>
   handleApiRequest H W u =
     (case cache_match (cacheOf (caches W) DYNAMIC_CACHE) u of
        Some cachedResponse \<Rightarrow> cachedResponse
      | None \<Rightarrow>
          \<lparr>status = 503, statusText = [], headers = [(''Content-Type'', ''application/json'')],
           body = JSON_error ''Offline - data not cached''\<rparr>,
      open_cache DYNAMIC_CACHE W)"
  by (simp add: handleApiRequest_def Let_def cacheOf_open_cache split: option.split)

lemma handleApiRequest_rejected:
  "onLine W \<Longrightarrow> respond H (length (netCalls W)) u = Inl e \<Longrightarrow>
   handleApiRequest H W u =
     (\<lparr>status = 500, statusText = [], headers = [(''Content-Type'', ''application/json'')],
       body = JSON_error ''Request failed''\<rparr>,
      W\<lparr>netCalls := netCalls W @ [u]\<rparr>)"
  by (simp add: handleApiRequest_def fetch_def)

lemma handleApiRequest_answered:
  "onLine W \<Longrightarrow> respond H (length (netCalls W)) u = Inr r \<Longrightarrow>
   fst (handleApiRequest H W u) = r"
  by (simp add: handleApiRequest_def fetch_def)

text \<open>
  C4, as the source has it. Offline, \<^verbatim>\<open>handleApiRequest\<close> makes no network call: it
  answers with the entry of the dynamic cache, and on a miss with a 503 response whose
  body is the JSON object with the key \<open>error\<close> and whose content type is
  \<open>application/json\<close>. Online, a rejected fetch is answered 500 with a JSON error body
  and the dynamic cache is not read; a fetch that resolves is answered with its response,
  whatever its status.
\<close>

theorem handleApiRequest_falls_back_when_offline:
  "(\<not> onLine W \<longrightarrow>
      handleApiRequest H W u =
        (case cache_match (cacheOf (caches W) DYNAMIC_CACHE) u of
           Some cachedResponse \<Rightarrow> cachedResponse
         | None \<Rightarrow>
             \<lparr>status = 503, statusText = [], headers = [(''Content-Type'', ''application/json'')],
              body = JSON_error ''Offline - data not cached''\<rparr>,
         open_cache DYNAMIC_CACHE W))
   \<and> (onLine W \<longrightarrow> respond H (length (netCalls W)) u = Inl e \<longrightarrow>
      handleApiRequest H W u =
        (\<lparr>status = 500, statusText = [], headers = [(''Content-Type'', ''application/json'')],
          body = JSON_error ''Request failed''\<rparr>,
         W\<lparr>netCalls := netCalls W @ [u]\<rparr>))
   \<and> (onLine W \<longrightarrow> respond H (length (netCalls W)) u = Inr r \<longrightarrow>
      fst (handleApiRequest H W u) = r)"
  using handleApiRequest_offline handleApiRequest_rejected handleApiRequest_answered
  by blast

text \<open>
  Instances of the three cases: offline with an empty storage (503), online with a
  rejected fetch (500), online with an answered fetch (the response itself).
\<close>

theorem handleApiRequest_falls_back_when_offline_witness:
  "\<not> onLine (freshWorld\<lparr>onLine := False\<rparr>)
   \<and> handleApiRequest okHost (freshWorld\<lparr>onLine := False\<rparr>) ''https://nominatim.openstreetmap.org/reverse'' =
       (\<lparr>status = 503, statusText = [], headers = [(''Content-Type'', ''application/json'')],
         body = JSON_error ''Offline - data not cached''\<rparr>,
        \<lparr>caches = [(''geocoordinate-dynamic-v1'', [])], onLine = False, netCalls = [],
         progress = []\<rparr>)
   \<and> onLine freshWorld
   \<and> respond failingHost (length (netCalls freshWorld)) ''https://nominatim.openstreetmap.org/reverse'' =
       Inl TypeError
   \<and> handleApiRequest failingHost freshWorld ''https://nominatim.openstreetmap.org/reverse'' =
       (\<lparr>status = 500, statusText = [], headers = [(''Content-Type'', ''application/json'')],
         body = JSON_error ''Request failed''\<rparr>,
        freshWorld\<lparr>netCalls := [''https://nominatim.openstreetmap.org/reverse'']\<rparr>)
   \<and> respond okHost (length (netCalls freshWorld)) ''https://nominatim.openstreetmap.org/reverse'' =
       Inr \<lparr>status = 200, statusText = ''OK'', headers = [],
            body = ''https://nominatim.openstreetmap.org/reverse''\<rparr>
   \<and> fst (handleApiRequest okHost freshWorld ''https://nominatim.openstreetmap.org/reverse'') =
       \<lparr>status = 200, statusText = ''OK'', headers = [],
        body = ''https://nominatim.openstreetmap.org/reverse''\<rparr>"
proof -
  have off: "\<not> onLine (freshWorld\<lparr>onLine := False\<rparr>)" by simp
  have on: "onLine freshWorld" by (simp add: freshWorld_def)
  have rejected: "respond failingHost (length (netCalls freshWorld))
      ''https://nominatim.openstreetmap.org/reverse'' = Inl TypeError"
    by (simp add: failingHost_def freshWorld_def)
  have answered: "respond okHost (length (netCalls freshWorld))
      ''https://nominatim.openstreetmap.org/reverse'' =
      Inr \<lparr>status = 200, statusText = ''OK'', headers = [],
           body = ''https://nominatim.openstreetmap.org/reverse''\<rparr>"
    by (simp add: okHost_def)
  have miss: "cache_match (cacheOf (caches freshWorld) DYNAMIC_CACHE)
      ''https://nominatim.openstreetmap.org/reverse'' = None"
    by (simp add: freshWorld_def cacheOf_def cache_match_def)
  have opened: "open_cache DYNAMIC_CACHE (freshWorld\<lparr>onLine := False\<rparr>) =
      \<lparr>caches = [(''geocoordinate-dynamic-v1'', [])], onLine = False, netCalls = [],
       progress = []\<rparr>"
    by (simp add: freshWorld_def open_cache_def caches_open_def caches_keys_def DYNAMIC_CACHE_name)
  have calls: "netCalls freshWorld = []" by (simp add: freshWorld_def)
  show ?thesis
    using handleApiRequest_falls_back_when_offline
        [of "freshWorld\<lparr>onLine := False\<rparr>" okHost "''https://nominatim.openstreetmap.org/reverse''"]
      handleApiRequest_falls_back_when_offline
        [of freshWorld failingHost "''https://nominatim.openstreetmap.org/reverse''" TypeError]
      handleApiRequest_falls_back_when_offline
        [of freshWorld okHost "''https://nominatim.openstreetmap.org/reverse''" _
          "\<lparr>status = 200, statusText = ''OK'', headers = [],
            body = ''https://nominatim.openstreetmap.org/reverse''\<rparr>"]
      off on rejected answered
    by (simp add: miss opened calls)
qed

text \<open>
  C4 as the specification states it fails when the worker is online and the fetch fails:
  the dynamic cache holds a response for the request, the fetch is rejected, and the
  answer is the 500 response, not the stored one. With one call already made, the same
  host answers 404, and the answer is that 404 response, not the stored one.
\<close>

theorem handleApiRequest_fetch_failure_counterexample:
  "onLine \<lparr>caches = [(''geocoordinate-dynamic-v1'',
        [(''https://nominatim.openstreetmap.org/reverse'',
          \<lparr>status = 200, statusText = ''OK'', headers = [], body = ''{}''\<rparr>)])],
      onLine = True, netCalls = [], progress = []\<rparr>
   \<and> respond failingHost 0 ''https://nominatim.openstreetmap.org/reverse'' = Inl TypeError
   \<and> cache_match (cacheOf [(''geocoordinate-dynamic-v1'',
        [(''https://nominatim.openstreetmap.org/reverse'',
          \<lparr>status = 200, statusText = ''OK'', headers = [], body = ''{}''\<rparr>)])] DYNAMIC_CACHE)
        ''https://nominatim.openstreetmap.org/reverse'' =
       Some \<lparr>status = 200, statusText = ''OK'', headers = [], body = ''{}''\<rparr>
   \<and> fst (handleApiRequest failingHost
        \<lparr>caches = [(''geocoordinate-dynamic-v1'',
          [(''https://nominatim.openstreetmap.org/reverse'',
            \<lparr>status = 200, statusText = ''OK'', headers = [], body = ''{}''\<rparr>)])],
         onLine = True, netCalls = [], progress = []\<rparr>
        ''https://nominatim.openstreetmap.org/reverse'') =
       \<lparr>status = 500, statusText = [], headers = [(''Content-Type'', ''application/json'')],
        body = JSON_error ''Request failed''\<rparr>
   \<and> fst (handleApiRequest failingHost
        \<lparr>caches = [(''geocoordinate-dynamic-v1'',
          [(''https://nominatim.openstreetmap.org/reverse'',
            \<lparr>status = 200, statusText = ''OK'', headers = [], body = ''{}''\<rparr>)])],
         onLine = True, netCalls = [''https://nominatim.openstreetmap.org/search''],
         progress = []\<rparr>
        ''https://nominatim.openstreetmap.org/reverse'') =
       \<lparr>status = 404, statusText = ''Not Found'', headers = [], body = []\<rparr>"
  by (simp add: handleApiRequest_def fetch_def failingHost_def ok_def cacheOf_def
      cache_match_def DYNAMIC_CACHE_name)

section \<open>Activation\<close>

lemma fold_caches_delete:
  "fold (\<lambda>cacheName cs. if P cacheName then caches_delete cacheName cs else cs) names cs =
     filter (\<lambda>entry. \<not> (P (fst entry) \<and> fst entry \<in> set names)) cs"
proof (induction names arbitrary: cs)
  case Nil
  show ?case by simp
next
  case (Cons n names)
  show ?case
    by (auto simp: Cons caches_delete_def intro!: filter_cong)
qed

lemma fold_over_own_keys:
  "fold (\<lambda>cacheName cs. if P cacheName then caches_delete cacheName cs else cs)
     (caches_keys cs) cs =
   filter (\<lambda>entry. \<not> P (fst entry)) cs"
  unfolding fold_caches_delete
  by (rule filter_cong) (auto simp: caches_keys_def)

lemma caches_activate:
  "caches (activate W) =
     filter (\<lambda>entry. fst entry \<in> {STATIC_CACHE, TILE_CACHE, DYNAMIC_CACHE}) (caches W)"
  unfolding activate_def
  by (simp add: fold_over_own_keys)

lemma old_generation_names:
  assumes "generation \<noteq> CACHE_VERSION"
  shows "''geocoordinate-static-'' @ generation \<notin> {STATIC_CACHE, TILE_CACHE, DYNAMIC_CACHE}"
    and "''geocoordinate-tiles-'' @ generation \<notin> {STATIC_CACHE, TILE_CACHE, DYNAMIC_CACHE}"
    and "''geocoordinate-dynamic-'' @ generation \<notin> {STATIC_CACHE, TILE_CACHE, DYNAMIC_CACHE}"
  using assms by (simp_all add: STATIC_CACHE_def TILE_CACHE_def DYNAMIC_CACHE_def)

text \<open>
  C9. After the \<^verbatim>\<open>activate\<close> listener ran, the cache storage holds exactly the caches
  it held before whose name is the current static, tile or dynamic name, each with its
  entries. So every cache of another name is gone, and for a generation tag other than the
  current one none of the three names built from it is left.
\<close>

theorem activate_deletes_other_generations:
  "caches (activate W) =
     filter (\<lambda>entry. fst entry \<in> {STATIC_CACHE, TILE_CACHE, DYNAMIC_CACHE}) (caches W)
   \<and> (name \<notin> {STATIC_CACHE, TILE_CACHE, DYNAMIC_CACHE} \<longrightarrow>
        name \<notin> set (caches_keys (caches (activate W))))
   \<and> (generation \<noteq> CACHE_VERSION \<longrightarrow>
        ''geocoordinate-static-'' @ generation \<notin> set (caches_keys (caches (activate W)))
        \<and> ''geocoordinate-tiles-'' @ generation \<notin> set (caches_keys (caches (activate W)))
        \<and> ''geocoordinate-dynamic-'' @ generation \<notin> set (caches_keys (caches (activate W))))"
proof -
  have gone: "n \<notin> set (caches_keys (caches (activate W)))"
    if "n \<notin> {STATIC_CACHE, TILE_CACHE, DYNAMIC_CACHE}" for n
    using that unfolding caches_activate caches_keys_def by auto
  show ?thesis
    using gone old_generation_names caches_activate by blast
qed

text \<open>
  An instance of C9: a storage with the tile caches of the generations \<open>v0\<close> and \<open>v1\<close>
  and the static cache of \<open>v0\<close>; after activation only the tile cache of \<open>v1\<close> is left.
\<close>

theorem activate_deletes_other_generations_witness:
  "''geocoordinate-tiles-v0'' \<notin> {STATIC_CACHE, TILE_CACHE, DYNAMIC_CACHE}
   \<and> ''v0'' \<noteq> CACHE_VERSION
   \<and> caches (activate
        (freshWorld\<lparr>caches :=
           [(''geocoordinate-tiles-v0'',
              [(tilePrefix @ ''0/0/0'', \<lparr>status = 200, statusText = ''OK'', headers = [], body = []\<rparr>)]),
            (''geocoordinate-tiles-v1'', []),
            (''geocoordinate-static-v0'', [])]\<rparr>)) =
       [(''geocoordinate-tiles-v1'', [])]
   \<and> ''geocoordinate-tiles-v0'' \<notin> set (caches_keys (caches (activate
        (freshWorld\<lparr>caches :=
           [(''geocoordinate-tiles-v0'',
              [(tilePrefix @ ''0/0/0'', \<lparr>status = 200, statusText = ''OK'', headers = [], body = []\<rparr>)]),
            (''geocoordinate-tiles-v1'', []),
            (''geocoordinate-static-v0'', [])]\<rparr>))))
   \<and> ''geocoordinate-static-'' @ ''v0'' \<notin> set (caches_keys (caches (activate
        (freshWorld\<lparr>caches :=
           [(''geocoordinate-tiles-v0'',
              [(tilePrefix @ ''0/0/0'', \<lparr>status = 200, statusText = ''OK'', headers = [], body = []\<rparr>)]),
            (''geocoordinate-tiles-v1'', []),
            (''geocoordinate-static-v0'', [])]\<rparr>))))"
proof -
  have names: "''geocoordinate-tiles-v0'' \<notin> {STATIC_CACHE, TILE_CACHE, DYNAMIC_CACHE}"
    "''v0'' \<noteq> CACHE_VERSION"
    by (simp_all add: STATIC_CACHE_def TILE_CACHE_def DYNAMIC_CACHE_def CACHE_VERSION_def)
  note claim = activate_deletes_other_generations
      [of "freshWorld\<lparr>caches :=
           [(''geocoordinate-tiles-v0'',
              [(tilePrefix @ ''0/0/0'', \<lparr>status = 200, statusText = ''OK'', headers = [], body = []\<rparr>)]),
            (''geocoordinate-tiles-v1'', []),
            (''geocoordinate-static-v0'', [])]\<rparr>" "''geocoordinate-tiles-v0''" "''v0''"]
  have left: "caches (activate
        (freshWorld\<lparr>caches :=
           [(''geocoordinate-tiles-v0'',
              [(tilePrefix @ ''0/0/0'', \<lparr>status = 200, statusText = ''OK'', headers = [], body = []\<rparr>)]),
            (''geocoordinate-tiles-v1'', []),
            (''geocoordinate-static-v0'', [])]\<rparr>)) =
       [(''geocoordinate-tiles-v1'', [])]"
    unfolding claim [THEN conjunct1]
    by (simp add: STATIC_CACHE_def TILE_CACHE_def DYNAMIC_CACHE_def CACHE_VERSION_def)
  show ?thesis
    using names claim [THEN conjunct2] left by simp
qed

section \<open>No eviction\<close>

lemma cacheOf_updateCacheInfo:
  "cacheOf (caches (snd (updateCacheInfo t W))) name = cacheOf (caches W) name"
  by (simp add: updateCacheInfo_def Let_def cacheOf_open_cache)

lemma cacheOf_checkCacheSize:
  "cacheOf (caches (snd (checkCacheSize t W))) name = cacheOf (caches W) name"
  using cacheOf_updateCacheInfo [of t W name]
  by (simp add: checkCacheSize_def split_beta)

lemma keys_cacheTile:
  "set (cache_keys (cacheOf (caches W) name)) \<subseteq>
     set (cache_keys (cacheOf (caches (snd (cacheTile H t W u))) name))"
proof -
  let ?W1 = "open_cache (cacheName t) W"
  let ?W2 = "?W1\<lparr>netCalls := netCalls ?W1 @ [u]\<rparr>"
  have same: "cacheOf (caches ?W2) name = cacheOf (caches W) name"
    by (simp add: cacheOf_open_cache)
  have present: "cacheName t \<in> set (caches_keys (caches ?W2))"
    using names_open_cache [of "cacheName t" W] by simp
  have grow: "set (cache_keys (cacheOf (caches W) name)) \<subseteq>
      set (cache_keys (cacheOf (caches (snd (put H (cacheName t) u r ?W2))) name))" for r
    using keys_put [OF present, of name H u r] same by simp
  show ?thesis
  proof (cases "respond H (length (netCalls W)) u")
    case (Inl e)
    then show ?thesis
      using same by (simp add: cacheTile_def fetch_def Let_def open_cache_def)
  next
    case (Inr r)
    then show ?thesis
      using same grow [of r]
      by (simp add: cacheTile_def fetch_def Let_def open_cache_def split_beta split: sum.split)
  qed
qed

lemma loop_step_world:
  "cacheTilesLoop H name (u # urls) completed total' onProgress W =
     cacheTilesLoop H name urls (completed + 1) total' onProgress
       (let W1 = (case fetch H W u of
                    (Inl e, W') \<Rightarrow> W'
                  | (Inr response, W') \<Rightarrow>
                      if ok response then snd (put H name u response W') else W')
        in if onProgress then W1\<lparr>progress := progress W1 @ [(completed + 1, total')]\<rparr> else W1)"
  by (simp add: Let_def)

lemma keys_cacheTilesLoop:
  "name \<in> set (caches_keys (caches W)) \<Longrightarrow>
   set (cache_keys (cacheOf (caches W) other)) \<subseteq>
     set (cache_keys (cacheOf (caches (snd (cacheTilesLoop H name urls completed total' onProgress W))) other))"
proof (induction urls arbitrary: completed W)
  case Nil
  show ?case by simp
next
  case (Cons u urls)
  let ?Wf = "W\<lparr>netCalls := netCalls W @ [u]\<rparr>"
  let ?W1 = "case fetch H W u of
               (Inl e, W') \<Rightarrow> W'
             | (Inr response, W') \<Rightarrow>
                 if ok response then snd (put H name u response W') else W'"
  let ?W2 = "if onProgress then ?W1\<lparr>progress := progress ?W1 @ [(completed + 1, total')]\<rparr> else ?W1"
  have present: "name \<in> set (caches_keys (caches ?Wf))"
    using Cons.prems by simp
  have grow1: "set (cache_keys (cacheOf (caches W) other)) \<subseteq> set (cache_keys (cacheOf (caches ?W1) other))"
    using keys_put [OF present, of other H u]
    by (simp add: fetch_def split: sum.split)
  have names1: "caches_keys (caches ?W1) = caches_keys (caches W)"
    by (simp add: fetch_def names_put split: sum.split)
  have "caches ?W2 = caches ?W1" by simp
  then have grow2: "set (cache_keys (cacheOf (caches W) other)) \<subseteq> set (cache_keys (cacheOf (caches ?W2) other))"
    and present2: "name \<in> set (caches_keys (caches ?W2))"
    using grow1 names1 Cons.prems by simp_all
  have "set (cache_keys (cacheOf (caches ?W2) other)) \<subseteq>
      set (cache_keys (cacheOf (caches (snd (cacheTilesLoop H name urls (completed + 1) total'
        onProgress ?W2))) other))"
    using present2 by (rule Cons.IH)
  then show ?case
    unfolding loop_step_world Let_def using grow2 by (rule subset_trans [rotated])
qed

lemma keys_cacheTiles:
  "set (cache_keys (cacheOf (caches W) name)) \<subseteq>
     set (cache_keys (cacheOf (caches (snd (cacheTiles H t W urls onProgress))) name))"
proof -
  have "set (cache_keys (cacheOf (caches (open_cache (cacheName t) W)) name)) \<subseteq>
      set (cache_keys (cacheOf (caches (snd (cacheTilesLoop H (cacheName t) urls 0 (length urls)
        onProgress (open_cache (cacheName t) W)))) name))"
    by (rule keys_cacheTilesLoop [OF names_open_cache])
  then show ?thesis
    by (simp add: cacheTiles_def Let_def split_beta cacheOf_updateCacheInfo cacheOf_open_cache)
qed

lemma okHost_loop_keys:
  "name \<in> set (caches_keys (caches W)) \<Longrightarrow>
   set urls \<subseteq>
     set (cache_keys (cacheOf (caches (snd (cacheTilesLoop okHost name urls completed total' onProgress W))) name))"
proof (induction urls arbitrary: completed W)
  case Nil
  show ?case by simp
next
  case (Cons u urls)
  let ?r = "\<lparr>status = 200, statusText = ''OK'', headers = [], body = u\<rparr>"
  let ?W1 = "W\<lparr>netCalls := netCalls W @ [u],
      caches := caches_modify name (cache_put u ?r) (caches W)\<rparr>"
  let ?W2 = "if onProgress then ?W1\<lparr>progress := progress ?W1 @ [(completed + 1, total')]\<rparr> else ?W1"
  have step: "cacheTilesLoop okHost name (u # urls) completed total' onProgress W =
      cacheTilesLoop okHost name urls (completed + 1) total' onProgress ?W2"
    by (simp add: Let_def fetch_def okHost_def ok_def put_def)
  have present2: "name \<in> set (caches_keys (caches ?W2))"
    using Cons.prems by (simp add: caches_keys_modify)
  have "u \<in> set (cache_keys (cacheOf (caches ?W2) name))"
    using Cons.prems by (simp add: cacheOf_modify cache_keys_put)
  then have here: "u \<in> set (cache_keys (cacheOf (caches (snd (cacheTilesLoop okHost name urls
      (completed + 1) total' onProgress ?W2))) name))"
    using keys_cacheTilesLoop [OF present2, of name okHost urls "completed + 1" total' onProgress]
    by blast
  have "set urls \<subseteq> set (cache_keys (cacheOf (caches (snd (cacheTilesLoop okHost name urls
      (completed + 1) total' onProgress ?W2))) name))"
    using present2 by (rule Cons.IH)
  then show ?case
    unfolding step using here by simp
qed

lemma okHost_cacheTiles_keys:
  "set urls \<subseteq>
     set (cache_keys (cacheOf (caches (snd (cacheTiles okHost t W urls onProgress))) (cacheName t)))"
proof -
  have "set urls \<subseteq>
      set (cache_keys (cacheOf (caches (snd (cacheTilesLoop okHost (cacheName t) urls 0 (length urls)
        onProgress (open_cache (cacheName t) W)))) (cacheName t)))"
    by (rule okHost_loop_keys [OF names_open_cache])
  then show ?thesis
    by (simp add: cacheTiles_def Let_def split_beta cacheOf_updateCacheInfo)
qed

lemma count_unbounded:
  "\<exists>urls. n < length (cache_keys (cacheOf (caches (snd (cacheTiles okHost t W urls onProgress)))
     (cacheName t)))"
proof -
  let ?urls = "map (\<lambda>i. tileUrl 0 (int i) 0) [0..<Suc n]"
  let ?keys = "cache_keys (cacheOf (caches (snd (cacheTiles okHost t W ?urls onProgress))) (cacheName t))"
  have "inj_on (\<lambda>i. tileUrl 0 (int i) 0) (set [0..<Suc n])"
    by (rule inj_onI) (auto simp: tileUrl_zyx dest: zyxUrl_inject)
  then have "distinct ?urls"
    by (simp add: distinct_map)
  then have "card (set ?urls) = length ?urls"
    by (rule distinct_card)
  then have "card (set ?urls) = Suc n"
    by (simp only: length_map length_upt diff_zero)
  moreover have "card (set ?urls) \<le> card (set ?keys)"
    by (rule card_mono [OF finite_set okHost_cacheTiles_keys])
  moreover have "card (set ?keys) \<le> length ?keys"
    by (rule card_length)
  ultimately have "n < length ?keys" by linarith
  then show ?thesis by blast
qed

lemma clearCache_empties: "cacheOf (caches (clearCache t W)) (cacheName t) = []"
  by (simp add: clearCache_def cacheOf_updateCacheInfo cacheOf_delete)

lemma clearAllCaches_empties: "caches (clearAllCaches W) = []"
proof -
  have "fold (\<lambda>cacheName cs. if True then caches_delete cacheName cs else cs)
      (caches_keys (caches W)) (caches W) = filter (\<lambda>entry. \<not> True) (caches W)"
    by (rule fold_over_own_keys)
  then show ?thesis by (simp add: clearAllCaches_def)
qed

lemma keys_handleTileRequest:
  "set (cache_keys (cacheOf (caches W) name)) \<subseteq>
     set (cache_keys (cacheOf (caches (snd (handleTileRequest H W u))) name))"
proof -
  let ?W1 = "open_cache TILE_CACHE W"
  let ?W2 = "?W1\<lparr>netCalls := netCalls ?W1 @ [u]\<rparr>"
  have same1: "cacheOf (caches ?W1) name = cacheOf (caches W) name"
    by (rule cacheOf_open_cache)
  then have same2: "cacheOf (caches ?W2) name = cacheOf (caches W) name"
    by simp
  have present: "TILE_CACHE \<in> set (caches_keys (caches ?W2))"
    using names_open_cache [of TILE_CACHE W] by simp
  have grow: "set (cache_keys (cacheOf (caches W) name)) \<subseteq>
      set (cache_keys (cacheOf (caches (snd (put H TILE_CACHE u r ?W2))) name))" for r
    using keys_put [OF present, of name H u r] same2 by simp
  show ?thesis
    using same1 same2 grow
    by (simp add: handleTileRequest_def Let_def fetch_def split: option.split sum.split)
qed

lemma keys_handleApiRequest:
  "set (cache_keys (cacheOf (caches W) name)) \<subseteq>
     set (cache_keys (cacheOf (caches (snd (handleApiRequest H W u))) name))"
proof -
  let ?Wf = "W\<lparr>netCalls := netCalls W @ [u]\<rparr>"
  let ?Wo = "open_cache DYNAMIC_CACHE ?Wf"
  have same: "cacheOf (caches ?Wo) name = cacheOf (caches W) name"
    by (simp add: cacheOf_open_cache)
  have present: "DYNAMIC_CACHE \<in> set (caches_keys (caches ?Wo))"
    by (rule names_open_cache)
  have grow: "set (cache_keys (cacheOf (caches W) name)) \<subseteq>
      set (cache_keys (cacheOf (caches (snd (put H DYNAMIC_CACHE u r ?Wo))) name))" for r
    using keys_put [OF present, of name H u r] same by simp
  show ?thesis
    using grow
    by (simp add: handleApiRequest_def Let_def fetch_def cacheOf_open_cache
        split: option.split sum.split)
qed

lemma map_of_filter_names:
  "map_of (filter (\<lambda>entry. fst entry \<in> S) cs) name = (if name \<in> S then map_of cs name else None)"
  by (induction cs) auto

lemma activate_keeps_tile_cache:
  "cacheOf (caches (activate W)) TILE_CACHE = cacheOf (caches W) TILE_CACHE"
  unfolding caches_activate cacheOf_def map_of_filter_names by simp

text \<open>
  C10. The constructor sets \<^verbatim>\<open>maxCacheSize\<close> to 500 and nothing enforces it.
  \<^verbatim>\<open>checkCacheSize\<close> leaves the entries of every cache as they were. None of
  \<^verbatim>\<open>cacheTile\<close>, \<^verbatim>\<open>cacheTiles\<close> and the service worker's \<^verbatim>\<open>handleTileRequest\<close> and
  \<^verbatim>\<open>handleApiRequest\<close> removes a key from any cache, and activation leaves the current
  tile cache as it was. For every number \<open>n\<close> there is a list of URLs after which, on a
  host that answers every fetch, the tile cache holds more than \<open>n\<close> entries, whatever
  it held before. \<^verbatim>\<open>clearCache\<close> leaves the tile cache empty, and the
  \<^verbatim>\<open>CLEAR_CACHE\<close> message leaves no cache at all.
\<close>

theorem tile_cache_grows_without_eviction:
  "maxCacheSize newTileCache = 500
   \<and> cacheOf (caches (snd (checkCacheSize t W))) name = cacheOf (caches W) name
   \<and> set (cache_keys (cacheOf (caches W) name)) \<subseteq>
       set (cache_keys (cacheOf (caches (snd (cacheTile H t W u))) name))
   \<and> set (cache_keys (cacheOf (caches W) name)) \<subseteq>
       set (cache_keys (cacheOf (caches (snd (cacheTiles H t W urls onProgress))) name))
   \<and> set (cache_keys (cacheOf (caches W) name)) \<subseteq>
       set (cache_keys (cacheOf (caches (snd (handleTileRequest H W u))) name))
   \<and> set (cache_keys (cacheOf (caches W) name)) \<subseteq>
       set (cache_keys (cacheOf (caches (snd (handleApiRequest H W u))) name))
   \<and> cacheOf (caches (activate W)) TILE_CACHE = cacheOf (caches W) TILE_CACHE
   \<and> (\<forall>n. \<exists>urls'. n < length (cache_keys (cacheOf
         (caches (snd (cacheTiles okHost t W urls' onProgress))) (cacheName t))))
   \<and> cacheOf (caches (clearCache t W)) (cacheName t) = []
   \<and> caches (clearAllCaches W) = []"
  using cacheOf_checkCacheSize keys_cacheTile keys_cacheTiles keys_handleTileRequest
    keys_handleApiRequest activate_keeps_tile_cache count_unbounded
    clearCache_empties clearAllCaches_empties
  by (simp add: newTileCache_def)

end
